theory Spec2Isabelle
  imports Complex_Main "HOL-Library.List_Lexorder"
begin

section \<open>JavaScript values\<close>

text \<open>
  The server is JavaScript: the upstream payload is whatever \<^verbatim>\<open>JSON.parse\<close> produced, and
  the transformer reads it with no schema. A value is therefore one of the JavaScript
  kinds. \<open>JBuiltin\<close> stands for an object of the runtime (a prototype method, the
  \<^verbatim>\<open>Object\<close> constructor), named by its path; parsed JSON never contains one, a property
  read can return one. An object is the list of its own properties in creation order.
  Strings are byte strings; numbers are rationals (every JSON number is one) and
  \<^verbatim>\<open>NaN\<close>, the time value of a date that could not be read.
\<close>

datatype jsval =
    JUndefined
  | JNull
  | JBool bool
  | JNum rat
  | JNaN
  | JStr string
  | JArr "jsval list"
  | JObj "(string \<times> jsval) list"
  | JBuiltin string

text \<open>A thrown exception is a value; \<open>Inl\<close> is a throw, \<open>Inr\<close> a normal completion.\<close>

datatype error = TypeError string

type_synonym 'a outcome = "error + 'a"

abbreviation Throws :: "error \<Rightarrow> 'a outcome" where
  "Throws \<equiv> Inl"

abbreviation Returns :: "'a \<Rightarrow> 'a outcome" where
  "Returns \<equiv> Inr"

fun message :: "error \<Rightarrow> string" where
  "message (TypeError m) = m"

text \<open>The engine's message for a property read on \<^verbatim>\<open>null\<close> or \<^verbatim>\<open>undefined\<close>.\<close>

definition cannotRead :: "jsval \<Rightarrow> string \<Rightarrow> error" where
  "cannotRead v k =
     TypeError (''Cannot read properties of '' @ (if v = JNull then ''null'' else ''undefined'')
                @ '' (reading '' @ [CHR 0x27] @ k @ [CHR 0x27] @ '')'')"

definition bindE :: "'a outcome \<Rightarrow> ('a \<Rightarrow> 'b outcome) \<Rightarrow> 'b outcome" where
  "bindE m f = (case m of Inl e \<Rightarrow> Inl e | Inr x \<Rightarrow> f x)"

text \<open>\<^verbatim>\<open>xs.map(f)\<close> and \<^verbatim>\<open>xs.filter(p)\<close> with a callback that may throw: the elements are
  visited in order and the first throw ends the call.\<close>

fun mapE :: "('a \<Rightarrow> 'b outcome) \<Rightarrow> 'a list \<Rightarrow> 'b list outcome" where
  "mapE f [] = Returns []"
| "mapE f (x # xs) =
     (case f x of
        Inl e \<Rightarrow> Inl e
      | Inr y \<Rightarrow> (case mapE f xs of Inl e \<Rightarrow> Inl e | Inr ys \<Rightarrow> Returns (y # ys)))"

fun filterE :: "('a \<Rightarrow> bool outcome) \<Rightarrow> 'a list \<Rightarrow> 'a list outcome" where
  "filterE p [] = Returns []"
| "filterE p (x # xs) =
     (case p x of
        Inl e \<Rightarrow> Inl e
      | Inr b \<Rightarrow> (case filterE p xs of
                    Inl e \<Rightarrow> Inl e
                  | Inr ys \<Rightarrow> Returns (if b then x # ys else ys)))"

text \<open>Truthiness, as \<^verbatim>\<open>!v\<close>, \<^verbatim>\<open>a || b\<close>, \<^verbatim>\<open>a && b\<close> and \<^verbatim>\<open>if (v)\<close> test it.\<close>

fun truthy :: "jsval \<Rightarrow> bool" where
  "truthy JUndefined = False"
| "truthy JNull = False"
| "truthy (JBool b) = b"
| "truthy (JNum q) = (q \<noteq> 0)"
| "truthy JNaN = False"
| "truthy (JStr s) = (s \<noteq> [])"
| "truthy (JArr xs) = True"
| "truthy (JObj kvs) = True"
| "truthy (JBuiltin n) = True"

fun nullish :: "jsval \<Rightarrow> bool" where
  "nullish JUndefined = True"
| "nullish JNull = True"
| "nullish v = False"

text \<open>\<^verbatim>\<open>a || b\<close> on values.\<close>

definition orElse :: "jsval \<Rightarrow> jsval \<Rightarrow> jsval" where
  "orElse a b = (if truthy a then a else b)"

text \<open>
  \<^verbatim>\<open>v.k\<close> for a receiver that is not nullish (the caller checks, and throws, where the
  source can meet \<^verbatim>\<open>null\<close>). The member names the program reads from payload values are
  result, event, id, name, venue, openDate, start, inPlay, competition, runners, status,
  matched, numWinners, mtype, eventTypeId, sort, hdp, lastPriceTraded, totalMatched, back,
  lay, price, size and, on its own objects, matches, markets and data. An object answers with
  its own property. Of the names above the prototypes of arrays, strings, numbers and
  booleans define only \<^verbatim>\<open>sort\<close>, on arrays; every other read of a non-object is
  \<^verbatim>\<open>undefined\<close>.
\<close>

fun field :: "jsval \<Rightarrow> string \<Rightarrow> jsval" where
  "field (JObj kvs) k = (case map_of kvs k of Some v \<Rightarrow> v | None \<Rightarrow> JUndefined)"
| "field (JArr xs) k = (if k = ''sort'' then JBuiltin ''Array.prototype.sort'' else JUndefined)"
| "field v k = JUndefined"

text \<open>\<^verbatim>\<open>v?.k\<close>: optional chaining stops at a nullish receiver.\<close>

definition optField :: "jsval \<Rightarrow> string \<Rightarrow> jsval" where
  "optField v k = (if nullish v then JUndefined else field v k)"

fun elems :: "jsval \<Rightarrow> jsval list" where
  "elems (JArr xs) = xs"
| "elems v = []"

section \<open>The platform\<close>

text \<open>
  What the code takes from the runtime and not from this repository: the rendering of a
  number as a string, the time value of \<^verbatim>\<open>new Date(v)\<close> for a value that converts to a
  primitive (a number, or \<^verbatim>\<open>NaN\<close> for an invalid date), the collation
  \<^verbatim>\<open>String.prototype.localeCompare\<close> and the clock read by \<^verbatim>\<open>new Date().getTime()\<close>.
\<close>

record platform =
  numberToString :: "rat \<Rightarrow> string"
  dateGetTime :: "jsval \<Rightarrow> jsval"
  localeCompare :: "string \<Rightarrow> string \<Rightarrow> int"
  clock :: int

text \<open>
  The conversion of a value to a string, as a property key (\<^verbatim>\<open>matches[eventId]\<close>), a
  template literal and the argument of \<^verbatim>\<open>localeCompare\<close> perform it. An array joins its
  elements with commas, \<^verbatim>\<open>null\<close> and \<^verbatim>\<open>undefined\<close> elements being empty. A parsed object
  renders through \<^verbatim>\<open>Object.prototype.toString\<close> unless it has a property \<^verbatim>\<open>toString\<close> of
  its own: that one is data, not a function, and the conversion throws.
\<close>

definition builtinToString :: "string \<Rightarrow> string" where
  "builtinToString n =
     (if n = ''Object.prototype'' then ''[object Object]''
      else ''function '' @ n @ ''() { [native code] }'')"

fun toStringE :: "platform \<Rightarrow> jsval \<Rightarrow> string outcome"
  and joinE :: "platform \<Rightarrow> jsval list \<Rightarrow> string outcome" where
  "toStringE env JUndefined = Returns ''undefined''"
| "toStringE env JNull = Returns ''null''"
| "toStringE env (JBool b) = Returns (if b then ''true'' else ''false'')"
| "toStringE env (JNum q) = Returns (numberToString env q)"
| "toStringE env JNaN = Returns ''NaN''"
| "toStringE env (JStr s) = Returns s"
| "toStringE env (JArr xs) = joinE env xs"
| "toStringE env (JObj kvs) =
     (if ''toString'' \<in> set (map fst kvs)
      then Throws (TypeError ''Cannot convert object to primitive value'')
      else Returns ''[object Object]'')"
| "toStringE env (JBuiltin n) = Returns (builtinToString n)"
| "joinE env [] = Returns []"
| "joinE env (x # xs) =
     (case (if nullish x then Returns [] else toStringE env x) of
        Inl e \<Rightarrow> Inl e
      | Inr s \<Rightarrow>
          (if xs = [] then Returns s
           else (case joinE env xs of Inl e \<Rightarrow> Inl e | Inr t \<Rightarrow> Returns (s @ '','' @ t))))"

text \<open>
  \<^verbatim>\<open>new Date(v).getTime()\<close>: the constructor first converts \<open>v\<close> to a primitive, which throws
  exactly when the conversion to a string does (a parsed object with a property
  \<^verbatim>\<open>toString\<close> of its own, alone or inside an array).
\<close>

definition newDateGetTime :: "platform \<Rightarrow> jsval \<Rightarrow> jsval outcome" where
  "newDateGetTime env v = bindE (toStringE env v) (\<lambda>primitive. Returns (dateGetTime env v))"

text \<open>\<^verbatim>\<open>event.openDate ? new Date(event.openDate).getTime() : start\<close>, as both transformers
  compute the start time.\<close>

definition startTimeE :: "platform \<Rightarrow> jsval \<Rightarrow> jsval \<Rightarrow> jsval outcome" where
  "startTimeE env event start =
     (if truthy (field event ''openDate'') then newDateGetTime env (field event ''openDate'')
      else Returns start)"




section \<open>Plain objects used as tables\<close>

text \<open>
  \<^verbatim>\<open>SPORT_TYPE_IDS\<close>, \<^verbatim>\<open>matches\<close> and \<^verbatim>\<open>competitions\<close> are object literals indexed with a
  computed key. Such a read finds the object's own property first and then the members
  every object inherits from \<^verbatim>\<open>Object.prototype\<close>, all of them truthy.
\<close>

definition objectPrototype :: "string \<Rightarrow> jsval" where
  "objectPrototype k =
     (if k = ''__proto__'' then JBuiltin ''Object.prototype''
      else if k = ''constructor'' then JBuiltin ''Object''
      else if k \<in> set [''hasOwnProperty'', ''isPrototypeOf'', ''propertyIsEnumerable'',
                        ''toLocaleString'', ''toString'', ''valueOf'', ''__defineGetter__'',
                        ''__defineSetter__'', ''__lookupGetter__'', ''__lookupSetter__'']
      then JBuiltin k
      else JUndefined)"

definition tableGet :: "(string \<times> jsval) list \<Rightarrow> string \<Rightarrow> jsval" where
  "tableGet t k = (case map_of t k of Some v \<Rightarrow> v | None \<Rightarrow> objectPrototype k)"

fun tableSet :: "(string \<times> jsval) list \<Rightarrow> string \<Rightarrow> jsval \<Rightarrow> (string \<times> jsval) list" where
  "tableSet [] k v = [(k, v)]"
| "tableSet ((k', v') # t) k v = (if k' = k then (k, v) # t else (k', v') # tableSet t k v)"

text \<open>
  \<^verbatim>\<open>Object.values\<close> lists the own properties: first the keys that are array indices
  (canonical decimal numerals below \<open>2\<^sup>3\<^sup>2 - 1\<close>) in ascending numeric order, then the
  other keys in creation order.
\<close>

definition digitOf :: "char \<Rightarrow> nat option" where
  "digitOf c = map_of (zip ''0123456789'' [0, 1, 2, 3, 4, 5, 6, 7, 8, 9]) c"

definition indexValue :: "string \<Rightarrow> nat" where
  "indexValue s = foldl (\<lambda>n c. 10 * n + (case digitOf c of Some d \<Rightarrow> d | None \<Rightarrow> 0)) 0 s"

definition isArrayIndex :: "string \<Rightarrow> bool" where
  "isArrayIndex s =
     (s \<noteq> [] \<and> list_all (\<lambda>c. digitOf c \<noteq> None) s \<and> (s = ''0'' \<or> take 1 s \<noteq> ''0'')
      \<and> indexValue s < 4294967295)"

definition ownValues :: "(string \<times> jsval) list \<Rightarrow> jsval list" where
  "ownValues t =
     map snd (sort_key (\<lambda>p. indexValue (fst p)) (filter (\<lambda>p. isArrayIndex (fst p)) t)
              @ filter (\<lambda>p. \<not> isArrayIndex (fst p)) t)"

text \<open>\<^verbatim>\<open>obj.k = v\<close> on an object of the program's own, and \<^verbatim>\<open>obj.k.push(v)\<close>, which throws
  when \<^verbatim>\<open>obj.k\<close> is not an array (it is \<^verbatim>\<open>undefined\<close> on an inherited member).\<close>

fun setField :: "jsval \<Rightarrow> string \<Rightarrow> jsval \<Rightarrow> jsval" where
  "setField (JObj kvs) k v = JObj (tableSet kvs k v)"
| "setField obj k v = obj"

definition pushTo :: "jsval \<Rightarrow> string \<Rightarrow> jsval \<Rightarrow> jsval outcome" where
  "pushTo obj k v =
     (case field obj k of
        JArr xs \<Rightarrow> Returns (setField obj k (JArr (xs @ [v])))
      | _ \<Rightarrow> Throws (cannotRead (field obj k) ''push''))"

section \<open>The data transformer: markets\<close>

text \<open>The callback of a price ladder's \<^verbatim>\<open>map\<close>: \<^verbatim>\<open>price => ({price: price.price, size: price.size})\<close>.\<close>

definition priceLevel :: "jsval \<Rightarrow> jsval outcome" where
  "priceLevel price =
     (if nullish price then Throws (cannotRead price ''price'')
      else Returns (JObj [(''price'', field price ''price''), (''size'', field price ''size'')]))"

text \<open>\<^verbatim>\<open>runner.back?.map(...) || []\<close> and the same for \<^verbatim>\<open>lay\<close>: a nullish ladder gives the
  empty list, an array is mapped, and any other value has no callable \<^verbatim>\<open>map\<close>.\<close>

definition priceLadder :: "string \<Rightarrow> jsval \<Rightarrow> jsval outcome" where
  "priceLadder side ladder =
     (case ladder of
        JUndefined \<Rightarrow> Returns (JArr [])
      | JNull \<Rightarrow> Returns (JArr [])
      | JArr levels \<Rightarrow> bindE (mapE priceLevel levels) (\<lambda>ps. Returns (JArr ps))
      | _ \<Rightarrow> Throws (TypeError (''runner.'' @ side @ ''?.map is not a function'')))"

text \<open>The callback of \<^verbatim>\<open>market.runners.map\<close>.\<close>

definition transformRunner :: "jsval \<Rightarrow> jsval outcome" where
  "transformRunner runner =
     (if nullish runner then Throws (cannotRead runner ''id'')
      else
        bindE (priceLadder ''back'' (field runner ''back'')) (\<lambda>backPrices.
        bindE (priceLadder ''lay'' (field runner ''lay'')) (\<lambda>layPrices.
        Returns (JObj
          [(''id'', field runner ''id''),
           (''name'', field runner ''name''),
           (''status'', field runner ''status''),
           (''sortPriority'', field runner ''sort''),
           (''handicap'', field runner ''hdp''),
           (''lastPriceTraded'', field runner ''lastPriceTraded''),
           (''totalMatched'', field runner ''totalMatched''),
           (''backPrices'', backPrices),
           (''layPrices'', layPrices)]))))"

text \<open>The body of the \<^verbatim>\<open>try\<close> block of \<open>transformMarket\<close>.\<close>

definition marketBody :: "jsval \<Rightarrow> jsval outcome" where
  "marketBody market =
     (case field market ''runners'' of
        JArr rs \<Rightarrow>
          bindE (mapE transformRunner rs) (\<lambda>runners.
          Returns (JObj
            [(''id'', field market ''id''),
             (''name'', field market ''name''),
             (''status'', field market ''status''),
             (''inPlay'', orElse (field market ''inPlay'') (JBool False)),
             (''totalMatched'', field market ''matched''),
             (''numWinners'', field market ''numWinners''),
             (''start'', field market ''start''),
             (''marketType'', field market ''mtype''),
             (''sport'',
                if field market ''eventTypeId'' = JStr ''1'' then JStr ''football''
                else if field market ''eventTypeId'' = JStr ''2'' then JStr ''tennis''
                else if field market ''eventTypeId'' = JStr ''4'' then JStr ''cricket''
                else JStr ''unknown''),
             (''runners'', JArr runners)]))
      | _ \<Rightarrow> Throws (TypeError ''market.runners.map is not a function''))"

definition transformMarket :: "jsval \<Rightarrow> jsval outcome" where
  "transformMarket market =
     (if \<not> truthy market \<or> \<not> truthy (field market ''runners'') then Returns JNull
      else (case marketBody market of
              Inl error \<Rightarrow> Returns JNull
            | Inr transformed \<Rightarrow> Returns transformed))"

section \<open>Sport names and type codes\<close>

text \<open>\<^verbatim>\<open>String.prototype.toLowerCase\<close>, on the ASCII letters.\<close>

definition toLowerCaseChar :: "char \<Rightarrow> char" where
  "toLowerCaseChar c =
     (case map_of (zip ''ABCDEFGHIJKLMNOPQRSTUVWXYZ'' ''abcdefghijklmnopqrstuvwxyz'') c of
        Some l \<Rightarrow> l
      | None \<Rightarrow> c)"

definition toLowerCase :: "string \<Rightarrow> string" where
  "toLowerCase s = map toLowerCaseChar s"

text \<open>
  A string as the list of its code units, which the order on lists compares
  lexicographically. A collation is case-insensitive on a set of names when it never puts
  one of them before another against the lexicographic order of their lower-cased forms;
  between names that differ in case only it is free.
\<close>

definition codeUnits :: "string \<Rightarrow> nat list" where
  "codeUnits s = map of_char s"


definition SPORT_TYPE_IDS :: "(string \<times> jsval) list" where
  "SPORT_TYPE_IDS = [(''cricket'', JStr ''4''), (''football'', JStr ''1''), (''tennis'', JStr ''2'')]"

text \<open>\<^verbatim>\<open>SPORT_TYPE_IDS[normalizedName] || '4'\<close>\<close>

definition getSportTypeId :: "string \<Rightarrow> jsval" where
  "getSportTypeId sportName =
     (let normalizedName = toLowerCase sportName
      in orElse (tableGet SPORT_TYPE_IDS normalizedName) (JStr ''4''))"

section \<open>The data transformer: sports\<close>

text \<open>The failure shape \<^verbatim>\<open>{success: false, message, sport}\<close>.\<close>

definition failure :: "string \<Rightarrow> string \<Rightarrow> jsval" where
  "failure msg sportName =
     JObj [(''success'', JBool False), (''message'', JStr msg), (''sport'', JStr sportName)]"

text \<open>The two local objects of \<open>transformSportData\<close>, keyed by event id and by competition id.\<close>

record tables =
  matches :: "(string \<times> jsval) list"
  competitions :: "(string \<times> jsval) list"

text \<open>Store competition info (source lines 33 to 41).\<close>

definition storeCompetition :: "platform \<Rightarrow> jsval \<Rightarrow> jsval \<Rightarrow> tables \<Rightarrow> tables outcome" where
  "storeCompetition env competitionId competitionName st =
     (if truthy competitionId \<and> truthy competitionName then
        bindE (toStringE env competitionId) (\<lambda>key.
        if \<not> truthy (tableGet (competitions st) key) then
          Returns (st\<lparr>competitions := tableSet (competitions st) key
            (JObj [(''id'', competitionId), (''name'', competitionName), (''matches'', JArr [])])\<rparr>)
        else Returns st)
      else Returns st)"

text \<open>Add this match to its competition (source lines 58 to 60).\<close>

definition addToCompetition :: "platform \<Rightarrow> jsval \<Rightarrow> jsval \<Rightarrow> tables \<Rightarrow> tables outcome" where
  "addToCompetition env competitionId eventId st =
     (if truthy competitionId then
        bindE (toStringE env competitionId) (\<lambda>key.
        if truthy (tableGet (competitions st) key) then
          bindE (pushTo (tableGet (competitions st) key) ''matches'' eventId) (\<lambda>competition.
          Returns (st\<lparr>competitions := tableSet (competitions st) key competition\<rparr>))
        else Returns st)
      else Returns st)"

text \<open>Create or update match entry (source lines 44 to 61).\<close>

definition createMatch ::
  "platform \<Rightarrow> string \<Rightarrow> jsval \<Rightarrow> jsval \<Rightarrow> jsval \<Rightarrow> jsval \<Rightarrow> tables \<Rightarrow> tables outcome" where
  "createMatch env sportName market eventId competitionId competitionName st =
     bindE (toStringE env eventId) (\<lambda>key.
     if \<not> truthy (tableGet (matches st) key) then
       bindE (startTimeE env (field market ''event'') (field market ''start'')) (\<lambda>startTime.
       addToCompetition env competitionId eventId
         (st\<lparr>matches := tableSet (matches st) key
           (JObj
             [(''id'', eventId),
              (''name'', field (field market ''event'') ''name''),
              (''venue'', field (field market ''event'') ''venue''),
              (''startTime'', startTime),
              (''inPlay'', orElse (field market ''inPlay'') (JBool False)),
              (''sport'', JStr sportName),
              (''competitionId'', competitionId),
              (''competition'', competitionName),
              (''markets'', JArr [])])\<rparr>))
     else Returns st)"

text \<open>Add market to match (source lines 64 to 67).\<close>

definition addMarket :: "platform \<Rightarrow> jsval \<Rightarrow> jsval \<Rightarrow> tables \<Rightarrow> tables outcome" where
  "addMarket env market eventId st =
     bindE (transformMarket market) (\<lambda>transformedMarket.
     if truthy transformedMarket then
       bindE (toStringE env eventId) (\<lambda>key.
       bindE (pushTo (tableGet (matches st) key) ''markets'' transformedMarket) (\<lambda>m.
       Returns (st\<lparr>matches := tableSet (matches st) key m\<rparr>)))
     else Returns st)"

text \<open>The callback of \<^verbatim>\<open>data.result.forEach\<close>: one upstream market record.\<close>

definition processMarket :: "platform \<Rightarrow> string \<Rightarrow> jsval \<Rightarrow> tables \<Rightarrow> tables outcome" where
  "processMarket env sportName market st =
     (if nullish market then Throws (cannotRead market ''event'')
      else if \<not> truthy (field market ''event'') \<or> \<not> truthy (field (field market ''event'') ''id'')
      then Returns st
      else
        let eventId = field (field market ''event'') ''id'';
            competitionId = optField (field market ''competition'') ''id'';
            competitionName = optField (field market ''competition'') ''name''
        in bindE (storeCompetition env competitionId competitionName st) (\<lambda>st1.
           bindE (createMatch env sportName market eventId competitionId competitionName st1) (\<lambda>st2.
           addMarket env market eventId st2)))"

fun forEachE :: "('a \<Rightarrow> 's \<Rightarrow> 's outcome) \<Rightarrow> 'a list \<Rightarrow> 's \<Rightarrow> 's outcome" where
  "forEachE f [] st = Returns st"
| "forEachE f (x # xs) st =
     (case f x st of Inl e \<Rightarrow> Inl e | Inr st' \<Rightarrow> forEachE f xs st')"

text \<open>\<^verbatim>\<open>data.result.forEach(...)\<close>: only an array has a callable \<^verbatim>\<open>forEach\<close>.\<close>

definition groupMarkets :: "platform \<Rightarrow> string \<Rightarrow> jsval \<Rightarrow> tables outcome" where
  "groupMarkets env sportName result =
     (case result of
        JArr records \<Rightarrow>
          forEachE (processMarket env sportName) records \<lparr>matches = [], competitions = []\<rparr>
      | _ \<Rightarrow> Throws (TypeError ''data.result.forEach is not a function''))"

text \<open>Convert competitions to array (source lines 71 to 76): each competition is copied with
  its list of event ids replaced by the match objects.\<close>

definition competitionEntry :: "platform \<Rightarrow> (string \<times> jsval) list \<Rightarrow> jsval \<Rightarrow> jsval outcome" where
  "competitionEntry env ms competition =
     bindE (mapE (\<lambda>matchId. bindE (toStringE env matchId) (\<lambda>key. Returns (tableGet ms key)))
              (elems (field competition ''matches''))) (\<lambda>list.
     Returns (setField competition ''matches'' (JArr list)))"

text \<open>
  \<^verbatim>\<open>competitionsArray.sort((a, b) => a.name.localeCompare(b.name))\<close>. The comparator throws
  unless the first name is a string; the second is converted to one. The language fixes the
  result of \<^verbatim>\<open>sort\<close> for a consistent comparator (sorted and stable) and leaves the
  sequence of comparator calls to the engine. The model is the stable insertion sort: each
  element, from the second on, is compared as \<open>a\<close> with elements before it and placed
  before the first one it is smaller than.
\<close>

definition compareNames :: "platform \<Rightarrow> jsval \<Rightarrow> jsval \<Rightarrow> int outcome" where
  "compareNames env a b =
     (case field a ''name'' of
        JStr s \<Rightarrow> bindE (toStringE env (field b ''name'')) (\<lambda>t. Returns (localeCompare env s t))
      | _ \<Rightarrow> Throws (if nullish (field a ''name'') then cannotRead (field a ''name'') ''localeCompare''
                     else TypeError ''a.name.localeCompare is not a function''))"

fun insertE :: "platform \<Rightarrow> jsval \<Rightarrow> jsval list \<Rightarrow> jsval list outcome" where
  "insertE env a [] = Returns [a]"
| "insertE env a (b # bs) =
     (case compareNames env a b of
        Inl e \<Rightarrow> Inl e
      | Inr order \<Rightarrow>
          (if order < 0 then Returns (a # b # bs)
           else (case insertE env a bs of Inl e \<Rightarrow> Inl e | Inr rest \<Rightarrow> Returns (b # rest))))"

fun sortFromE :: "platform \<Rightarrow> jsval list \<Rightarrow> jsval list \<Rightarrow> jsval list outcome" where
  "sortFromE env placed [] = Returns placed"
| "sortFromE env placed (a # rest) =
     (case insertE env a placed of Inl e \<Rightarrow> Inl e | Inr placed' \<Rightarrow> sortFromE env placed' rest)"

definition sortByName :: "platform \<Rightarrow> jsval list \<Rightarrow> jsval list outcome" where
  "sortByName env xs = sortFromE env [] xs"

text \<open>The body of the \<^verbatim>\<open>try\<close> block of \<open>transformSportData\<close>.\<close>

definition sportBody :: "platform \<Rightarrow> jsval \<Rightarrow> string \<Rightarrow> jsval outcome" where
  "sportBody env data sportName =
     bindE (groupMarkets env sportName (field data ''result'')) (\<lambda>st.
     bindE (mapE (competitionEntry env (matches st)) (ownValues (competitions st))) (\<lambda>competitionsArray.
     bindE (sortByName env competitionsArray) (\<lambda>sortedArray.
     Returns (JObj
       [(''success'', JBool True),
        (''sport'', JStr sportName),
        (''competitions'', JArr sortedArray),
        (''matchCount'', JNum (of_nat (length (matches st)))),
        (''timestamp'', JNum (of_int (clock env)))]))))"

definition transformSportData :: "platform \<Rightarrow> jsval \<Rightarrow> string \<Rightarrow> jsval outcome" where
  "transformSportData env data sportName =
     (if \<not> truthy data \<or> \<not> truthy (field data ''result'')
      then Returns (failure ''Invalid data format'' sportName)
      else (case sportBody env data sportName of
              Inl error \<Rightarrow>
                Returns (failure (''Error transforming '' @ sportName @ '' data: '' @ message error)
                           sportName)
            | Inr transformed \<Rightarrow> Returns transformed))"

section \<open>The data transformer: events\<close>

text \<open>\<^verbatim>\<open>s.includes(pat)\<close> on strings: \<open>pat\<close> occurs in \<open>s\<close> as a contiguous substring.\<close>

fun includesStr :: "string \<Rightarrow> string \<Rightarrow> bool" where
  "includesStr [] pat = (pat = [])"
| "includesStr (c # cs) pat = (take (length pat) (c # cs) = pat \<or> includesStr cs pat)"

text \<open>
  \<^verbatim>\<open>m.name?.includes(pat)\<close> as a condition. A nullish name gives \<^verbatim>\<open>undefined\<close>, which is
  falsy; a string is searched; an array answers whether \<open>pat\<close> is one of its elements; any
  other name has no callable \<^verbatim>\<open>includes\<close>.
\<close>

definition nameIncludes :: "jsval \<Rightarrow> string \<Rightarrow> bool outcome" where
  "nameIncludes m pat =
     (case field m ''name'' of
        JUndefined \<Rightarrow> Returns False
      | JNull \<Rightarrow> Returns False
      | JStr s \<Rightarrow> Returns (includesStr s pat)
      | JArr xs \<Rightarrow> Returns (JStr pat \<in> set xs)
      | _ \<Rightarrow> Throws (TypeError ''m.name?.includes is not a function''))"

text \<open>\<^verbatim>\<open>markets.find(p)\<close>: the first element that satisfies \<open>p\<close>, or \<^verbatim>\<open>undefined\<close>.\<close>

definition findFirst :: "(jsval \<Rightarrow> bool) \<Rightarrow> jsval list \<Rightarrow> jsval" where
  "findFirst p xs = (case find p xs of Some m \<Rightarrow> m | None \<Rightarrow> JUndefined)"

text \<open>The predicate of the residual bucket (source lines 127 to 133); \<^verbatim>\<open>&&\<close> stops at the
  first conjunct that is false.\<close>

definition isOtherMarket :: "jsval \<Rightarrow> bool outcome" where
  "isOtherMarket m =
     (if field m ''name'' \<noteq> JStr ''Match Odds'' \<and> field m ''name'' \<noteq> JStr ''Tied Match'' then
        bindE (nameIncludes m ''Over/Under'') (\<lambda>overUnder.
        if overUnder then Returns False
        else bindE (nameIncludes m ''Set'') (\<lambda>isSet.
             if isSet then Returns False
             else bindE (nameIncludes m ''Game'') (\<lambda>isGame. Returns (\<not> isGame))))
      else Returns False)"

text \<open>\<^verbatim>\<open>data.result?.[0]\<close> for a truthy \<^verbatim>\<open>data.result\<close>.\<close>

definition firstOf :: "jsval \<Rightarrow> jsval" where
  "firstOf result =
     (case result of
        JArr xs \<Rightarrow> (case xs of [] \<Rightarrow> JUndefined | x # rest \<Rightarrow> x)
      | JStr s \<Rightarrow> (case s of [] \<Rightarrow> JUndefined | c # rest \<Rightarrow> JStr [c])
      | JObj kvs \<Rightarrow> field (JObj kvs) ''0''
      | _ \<Rightarrow> JUndefined)"

text \<open>Group markets by type (source lines 121 to 134).\<close>

definition groupedMarkets :: "jsval list \<Rightarrow> jsval outcome" where
  "groupedMarkets markets =
     bindE (filterE (\<lambda>m. nameIncludes m ''Over/Under'') markets) (\<lambda>overUnderMarkets.
     bindE (filterE (\<lambda>m. nameIncludes m ''Set'') markets) (\<lambda>setMarkets.
     bindE (filterE (\<lambda>m. nameIncludes m ''Game'') markets) (\<lambda>gameMarkets.
     bindE (filterE isOtherMarket markets) (\<lambda>otherMarkets.
     Returns (JObj
       [(''matchOdds'', findFirst (\<lambda>m. field m ''name'' = JStr ''Match Odds'') markets),
        (''tiedMatch'', findFirst (\<lambda>m. field m ''name'' = JStr ''Tied Match'') markets),
        (''overUnderMarkets'', JArr overUnderMarkets),
        (''setMarkets'', JArr setMarkets),
        (''gameMarkets'', JArr gameMarkets),
        (''otherMarkets'', JArr otherMarkets)])))))"

text \<open>The body of the \<^verbatim>\<open>try\<close> block of \<open>transformEventData\<close>.\<close>

definition eventBody :: "platform \<Rightarrow> jsval \<Rightarrow> string \<Rightarrow> jsval outcome" where
  "eventBody env data sportName =
     (let firstMarket = orElse (firstOf (field data ''result'')) (JObj []);
          event = orElse (field firstMarket ''event'') (JObj [])
      in case field data ''result'' of
           JArr records \<Rightarrow>
             bindE (mapE transformMarket records) (\<lambda>transformed.
             let markets = filter truthy transformed in
             bindE (groupedMarkets markets) (\<lambda>grouped.
             bindE (startTimeE env event (field firstMarket ''start'')) (\<lambda>startTime.
             Returns (JObj
               [(''success'', JBool True),
                (''sport'', JStr sportName),
                (''event'', JObj
                   [(''id'', field event ''id''),
                    (''name'', field event ''name''),
                    (''venue'', field event ''venue''),
                    (''startTime'', startTime),
                    (''inPlay'', orElse (field firstMarket ''inPlay'') (JBool False)),
                    (''competition'', optField (field firstMarket ''competition'') ''name''),
                    (''competitionId'', optField (field firstMarket ''competition'') ''id'')]),
                (''markets'', JArr markets),
                (''groupedMarkets'', grouped),
                (''timestamp'', JNum (of_int (clock env)))]))))
         | _ \<Rightarrow> Throws (TypeError ''data.result.map is not a function''))"

definition transformEventData :: "platform \<Rightarrow> jsval \<Rightarrow> string \<Rightarrow> jsval outcome" where
  "transformEventData env data sportName =
     (if \<not> truthy data \<or> \<not> truthy (field data ''result'')
      then Returns (failure ''Invalid event data format'' sportName)
      else (case eventBody env data sportName of
              Inl error \<Rightarrow>
                Returns (failure (''Error transforming event data: '' @ message error) sportName)
            | Inr transformed \<Rightarrow> Returns transformed))"

section \<open>The REST endpoints and their caches\<close>

definition API_BASE_URL :: string where
  "API_BASE_URL = ''https://gobook9.com/api''"

definition CACHE_TTL :: int where
  "CACHE_TTL = 5 * 60 * 1000"

text \<open>
  The process state the handlers share: the two cache objects, each a table of entries
  \<^verbatim>\<open>{data, timestamp}\<close>, and the requests sent to the upstream provider so far (the URLs
  passed to \<open>apiRequest\<close>, oldest first).
\<close>

record server =
  sportsDataCache :: "(string \<times> jsval) list"
  eventDataCache :: "(string \<times> jsval) list"
  requested :: "string list"

definition cacheEntry :: "jsval \<Rightarrow> int \<Rightarrow> jsval" where
  "cacheEntry payload now = JObj [(''data'', payload), (''timestamp'', JNum (of_int now))]"

definition initialServer :: server where
  "initialServer =
     \<lparr>sportsDataCache =
        [(''cricket'', cacheEntry JNull 0), (''football'', cacheEntry JNull 0),
         (''tennis'', cacheEntry JNull 0)],
      eventDataCache = [],
      requested = []\<rparr>"

text \<open>The cache check of both routes:
  \<^verbatim>\<open>cache[key] && cache[key].data && now - cache[key].timestamp < ttl\<close>.\<close>

definition cacheFresh :: "(string \<times> jsval) list \<Rightarrow> string \<Rightarrow> int \<Rightarrow> int \<Rightarrow> bool" where
  "cacheFresh cache cacheKey now ttl =
     (truthy (tableGet cache cacheKey) \<and> truthy (field (tableGet cache cacheKey) ''data'')
      \<and> (case field (tableGet cache cacheKey) ''timestamp'' of
            JNum t \<Rightarrow> of_int now - t < of_int ttl
          | _ \<Rightarrow> False))"

record response =
  status :: nat
  body :: jsval

definition sportUrl :: "platform \<Rightarrow> jsval \<Rightarrow> string outcome" where
  "sportUrl env sportTypeId =
     bindE (toStringE env sportTypeId) (\<lambda>t.
     Returns (API_BASE_URL @ ''/exchange/odds/eventType/'' @ t))"

definition eventUrl :: "platform \<Rightarrow> jsval \<Rightarrow> jsval \<Rightarrow> string outcome" where
  "eventUrl env sportTypeId eventId =
     bindE (toStringE env sportTypeId) (\<lambda>t.
     bindE (toStringE env eventId) (\<lambda>e.
     Returns (API_BASE_URL @ ''/exchange/odds/d-sma-event/'' @ t @ ''/'' @ e)))"

text \<open>
  \<^verbatim>\<open>GET /api/sport/:sportName\<close>, past the authentication middleware. The handler is an
  \<^verbatim>\<open>async\<close> function on the event loop: it runs from the arrival of the request to its
  \<^verbatim>\<open>await apiRequest(url)\<close>, and again from the answer of the upstream provider to its end;
  other requests and events are served in between. \<open>now\<close> is the handler's
  \<^verbatim>\<open>Date.now()\<close>, read on arrival and kept for the cache write. Both failure exits (a falsy
  answer, and the \<^verbatim>\<open>catch\<close>) send the same response.
\<close>

definition sportFailure :: "string \<Rightarrow> response" where
  "sportFailure sportName =
     \<lparr>status = 500,
      body = JObj [(''success'', JBool False),
                   (''message'', JStr (''Failed to fetch '' @ sportName @ '' data''))]\<rparr>"

text \<open>From the arrival to the \<^verbatim>\<open>await\<close>: the response, when the handler answered from the
  cache (or failed), and none when its request went upstream and it waits.\<close>

definition sportRouteStart ::
  "platform \<Rightarrow> int \<Rightarrow> string \<Rightarrow> server \<Rightarrow> response option \<times> server" where
  "sportRouteStart env now sportName srv =
     (let sportTypeId = getSportTypeId sportName;
          cacheKey = toLowerCase sportName
      in if cacheFresh (sportsDataCache srv) cacheKey now CACHE_TTL then
           (Some \<lparr>status = 200, body = field (tableGet (sportsDataCache srv) cacheKey) ''data''\<rparr>,
            srv)
         else
           (case sportUrl env sportTypeId of
              Inl error \<Rightarrow> (Some (sportFailure sportName), srv)
            | Inr url \<Rightarrow> (None, srv\<lparr>requested := requested srv @ [url]\<rparr>)))"

text \<open>From the answer \<open>sportData\<close> of \<open>apiRequest\<close> (the response body, or \<^verbatim>\<open>null\<close> when the
  request failed) to the end, for the handler that read \<open>now\<close> on arrival.\<close>

definition sportRouteFinish ::
  "platform \<Rightarrow> int \<Rightarrow> string \<Rightarrow> jsval \<Rightarrow> server \<Rightarrow> response \<times> server" where
  "sportRouteFinish env now sportName sportData srv =
     (if \<not> truthy sportData then (sportFailure sportName, srv)
      else
        (case transformSportData env sportData sportName of
           Inl error \<Rightarrow> (sportFailure sportName, srv)
         | Inr transformedData \<Rightarrow>
             (\<lparr>status = 200, body = transformedData\<rparr>,
              srv\<lparr>sportsDataCache :=
                    tableSet (sportsDataCache srv) (toLowerCase sportName)
                      (cacheEntry transformedData now)\<rparr>)))"

text \<open>A request served to its end with nothing in between: \<open>upstream\<close> is what \<open>apiRequest\<close>
  resolves to for a URL at this moment.\<close>

definition sportRoute ::
  "platform \<Rightarrow> (string \<Rightarrow> jsval) \<Rightarrow> int \<Rightarrow> string \<Rightarrow> server \<Rightarrow> response \<times> server" where
  "sportRoute env upstream now sportName srv =
     (case sportRouteStart env now sportName srv of
        (Some answered, srv1) \<Rightarrow> (answered, srv1)
      | (None, srv1) \<Rightarrow> sportRouteFinish env now sportName (upstream (last (requested srv1))) srv1)"

text \<open>\<^verbatim>\<open>GET /api/event/:sportName/:eventId\<close>, with its window of 10 seconds.\<close>

definition eventFailure :: "string \<Rightarrow> response" where
  "eventFailure eventId =
     \<lparr>status = 500,
      body = JObj [(''success'', JBool False),
                   (''message'', JStr (''Failed to fetch event data for '' @ eventId))]\<rparr>"

definition eventRouteStart ::
  "platform \<Rightarrow> int \<Rightarrow> string \<Rightarrow> string \<Rightarrow> server \<Rightarrow> response option \<times> server" where
  "eventRouteStart env now sportName eventId srv =
     (let sportTypeId = getSportTypeId sportName;
          cacheKey = sportName @ ''_'' @ eventId
      in if cacheFresh (eventDataCache srv) cacheKey now 10000 then
           (Some \<lparr>status = 200, body = field (tableGet (eventDataCache srv) cacheKey) ''data''\<rparr>,
            srv)
         else
           (case eventUrl env sportTypeId (JStr eventId) of
              Inl error \<Rightarrow> (Some (eventFailure eventId), srv)
            | Inr url \<Rightarrow> (None, srv\<lparr>requested := requested srv @ [url]\<rparr>)))"

definition eventRouteFinish ::
  "platform \<Rightarrow> int \<Rightarrow> string \<Rightarrow> string \<Rightarrow> jsval \<Rightarrow> server \<Rightarrow> response \<times> server" where
  "eventRouteFinish env now sportName eventId eventData srv =
     (if \<not> truthy eventData then (eventFailure eventId, srv)
      else
        (case transformEventData env eventData sportName of
           Inl error \<Rightarrow> (eventFailure eventId, srv)
         | Inr transformedData \<Rightarrow>
             (\<lparr>status = 200, body = transformedData\<rparr>,
              srv\<lparr>eventDataCache :=
                    tableSet (eventDataCache srv) (sportName @ ''_'' @ eventId)
                      (cacheEntry transformedData now)\<rparr>)))"

definition eventRoute ::
  "platform \<Rightarrow> (string \<Rightarrow> jsval) \<Rightarrow> int \<Rightarrow> string \<Rightarrow> string \<Rightarrow> server \<Rightarrow> response \<times> server" where
  "eventRoute env upstream now sportName eventId srv =
     (case eventRouteStart env now sportName eventId srv of
        (Some answered, srv1) \<Rightarrow> (answered, srv1)
      | (None, srv1) \<Rightarrow>
          eventRouteFinish env now sportName eventId (upstream (last (requested srv1))) srv1)"






section \<open>The subscription engine\<close>

text \<open>
  One socket connection. The handlers are \<^verbatim>\<open>async\<close> functions on a single event loop: a
  handler runs without interruption up to an \<^verbatim>\<open>await\<close> of an upstream request and
  continues when the answer arrives; other events are served in between. The state of a
  connection is made of the closure variables \<^verbatim>\<open>subscriptions\<close>,
  \<^verbatim>\<open>sportUpdateInterval\<close> and \<^verbatim>\<open>eventUpdateInterval\<close>, the interval timers the
  runtime holds for it (armed by \<^verbatim>\<open>setInterval\<close> and not yet cleared), the requests
  awaiting their answer, and what was emitted to the client. A throw in a subscribe handler
  outside its cycle is caught by nobody: the \<^verbatim>\<open>async\<close> handler rejects, and the runtime
  (Node 18, by the \<^verbatim>\<open>Dockerfile\<close>) ends the process on an unhandled rejection; \<open>exited\<close>
  records it, and nothing is served afterwards.

  A cycle is the closure \<^verbatim>\<open>fetchAndEmitSportData\<close> or \<^verbatim>\<open>fetchAndEmitEventData\<close> with the
  variables it captured.
\<close>

datatype cycle =
    SportCycle string jsval
  | EventCycle string jsval jsval

record connection =
  subscriptionsSport :: jsval
  subscriptionsEvent :: jsval
  sportUpdateInterval :: "nat option"
  eventUpdateInterval :: "nat option"
  timers :: "(nat \<times> nat \<times> cycle) list"
  nextHandle :: nat
  inflight :: "(nat \<times> cycle \<times> bool) list"
  nextRequest :: nat
  emitted :: "(string \<times> jsval) list"
  exited :: bool

definition initialConnection :: connection where
  "initialConnection =
     \<lparr>subscriptionsSport = JNull, subscriptionsEvent = JNull,
      sportUpdateInterval = None, eventUpdateInterval = None,
      timers = [], nextHandle = 0, inflight = [], nextRequest = 0, emitted = [],
      exited = False\<rparr>"

text \<open>The process ends: its timers and the requests it awaited are gone with it.\<close>

definition unhandledRejection :: "server \<times> connection \<Rightarrow> server \<times> connection" where
  "unhandledRejection w = (fst w, (snd w)\<lparr>timers := [], inflight := [], exited := True\<rparr>)"

text \<open>\<^verbatim>\<open>if (handle) clearInterval(handle)\<close>: the timer, if still armed, is removed.\<close>

definition clearInterval :: "nat option \<Rightarrow> connection \<Rightarrow> connection" where
  "clearInterval handle c =
     (case handle of
        None \<Rightarrow> c
      | Some h \<Rightarrow> c\<lparr>timers := filter (\<lambda>t. fst t \<noteq> h) (timers c)\<rparr>)"

text \<open>\<^verbatim>\<open>setInterval(cycle, period)\<close>: a fresh handle, kept in the lane's variable.\<close>

definition setInterval :: "cycle \<Rightarrow> connection \<Rightarrow> connection" where
  "setInterval cy c =
     (case cy of
        SportCycle sportName sportTypeId \<Rightarrow>
          c\<lparr>sportUpdateInterval := Some (nextHandle c),
            timers := timers c @ [(nextHandle c, 5000, cy)],
            nextHandle := nextHandle c + 1\<rparr>
      | EventCycle sportName sportTypeId eventId \<Rightarrow>
          c\<lparr>eventUpdateInterval := Some (nextHandle c),
            timers := timers c @ [(nextHandle c, 1000, cy)],
            nextHandle := nextHandle c + 1\<rparr>)"

definition cycleUrl :: "platform \<Rightarrow> cycle \<Rightarrow> string outcome" where
  "cycleUrl env cy =
     (case cy of
        SportCycle sportName sportTypeId \<Rightarrow> sportUrl env sportTypeId
      | EventCycle sportName sportTypeId eventId \<Rightarrow> eventUrl env sportTypeId eventId)"

text \<open>
  The first half of a cycle: the request goes out (\<^verbatim>\<open>await apiRequest(url)\<close>) and the
  cycle waits. \<open>initial\<close> tells that a subscribe handler awaits the cycle and arms the
  timer after it. A throw inside the cycle is caught there, so the cycle is over at once.
\<close>

definition startCycle ::
  "platform \<Rightarrow> cycle \<Rightarrow> bool \<Rightarrow> server \<times> connection \<Rightarrow> server \<times> connection" where
  "startCycle env cy initial w =
     (case cycleUrl env cy of
        Inl error \<Rightarrow> (fst w, if initial then setInterval cy (snd w) else snd w)
      | Inr url \<Rightarrow>
          ((fst w)\<lparr>requested := requested (fst w) @ [url]\<rparr>,
           (snd w)\<lparr>inflight := inflight (snd w) @ [(nextRequest (snd w), cy, initial)],
                    nextRequest := nextRequest (snd w) + 1\<rparr>))"

text \<open>The second half: \<^verbatim>\<open>if (data) socket.emit(..., transform(data, sportName))\<close>.\<close>

definition emitUpdate :: "platform \<Rightarrow> cycle \<Rightarrow> jsval \<Rightarrow> connection \<Rightarrow> connection" where
  "emitUpdate env cy answer c =
     (if truthy answer then
        (case cy of
           SportCycle sportName sportTypeId \<Rightarrow>
             (case transformSportData env answer sportName of
                Inl error \<Rightarrow> c
              | Inr transformedData \<Rightarrow> c\<lparr>emitted := emitted c @ [(''sport_update'', transformedData)]\<rparr>)
         | EventCycle sportName sportTypeId eventId \<Rightarrow>
             (case transformEventData env answer sportName of
                Inl error \<Rightarrow> c
              | Inr transformedData \<Rightarrow> c\<lparr>emitted := emitted c @ [(''event_update'', transformedData)]\<rparr>))
      else c)"

definition finishCycle ::
  "platform \<Rightarrow> nat \<Rightarrow> jsval \<Rightarrow> server \<times> connection \<Rightarrow> server \<times> connection" where
  "finishCycle env request answer w =
     (case map_of (inflight (snd w)) request of
        None \<Rightarrow> w
      | Some waiting \<Rightarrow>
          (let c1 = (snd w)\<lparr>inflight := filter (\<lambda>r. fst r \<noteq> request) (inflight (snd w))\<rparr>;
               c2 = emitUpdate env (fst waiting) answer c1
           in (fst w, if snd waiting then setInterval (fst waiting) c2 else c2)))"

text \<open>
  \<^verbatim>\<open>socket.on('subscribe_sport', async (sportName) => ...)\<close> up to its \<^verbatim>\<open>await\<close>. The
  argument is what the client sent. The log line renders it, and \<^verbatim>\<open>getSportTypeId\<close> calls
  its \<^verbatim>\<open>toLowerCase\<close>, which only a string has; either throw rejects the handler.
\<close>

definition subscribe_sport ::
  "platform \<Rightarrow> jsval \<Rightarrow> server \<times> connection \<Rightarrow> server \<times> connection" where
  "subscribe_sport env sportName w =
     (case toStringE env sportName of
        Inl error \<Rightarrow> unhandledRejection w
      | Inr line \<Rightarrow>
          (let c1 = clearInterval (sportUpdateInterval (snd w)) (snd w);
               c2 = c1\<lparr>subscriptionsSport := sportName\<rparr>
           in case sportName of
                JStr name \<Rightarrow> startCycle env (SportCycle name (getSportTypeId name)) True (fst w, c2)
              | _ \<Rightarrow> unhandledRejection (fst w, c2)))"

definition unsubscribe_sport :: "server \<times> connection \<Rightarrow> server \<times> connection" where
  "unsubscribe_sport w =
     (fst w, (clearInterval (sportUpdateInterval (snd w)) (snd w))
               \<lparr>subscriptionsSport := JNull, sportUpdateInterval := None\<rparr>)"

text \<open>\<^verbatim>\<open>socket.on('subscribe_event', async (data) => ...)\<close> up to its \<^verbatim>\<open>await\<close>; destructuring
  a nullish argument throws, and so do the log line and \<^verbatim>\<open>getSportTypeId\<close> as above.\<close>

definition subscribe_event ::
  "platform \<Rightarrow> jsval \<Rightarrow> server \<times> connection \<Rightarrow> server \<times> connection" where
  "subscribe_event env data w =
     (if nullish data then unhandledRejection w
      else
        (let sportName = field data ''sportName'';
             eventId = field data ''eventId''
         in case bindE (toStringE env sportName) (\<lambda>s. toStringE env eventId) of
              Inl error \<Rightarrow> unhandledRejection w
            | Inr line \<Rightarrow>
                (let c1 = clearInterval (eventUpdateInterval (snd w)) (snd w);
                     c2 = c1\<lparr>subscriptionsEvent :=
                            JObj [(''sportName'', sportName), (''eventId'', eventId)]\<rparr>
                 in case sportName of
                      JStr name \<Rightarrow>
                        startCycle env (EventCycle name (getSportTypeId name) eventId) True
                          (fst w, c2)
                    | _ \<Rightarrow> unhandledRejection (fst w, c2))))"

definition unsubscribe_event :: "server \<times> connection \<Rightarrow> server \<times> connection" where
  "unsubscribe_event w =
     (fst w, (clearInterval (eventUpdateInterval (snd w)) (snd w))
               \<lparr>subscriptionsEvent := JNull, eventUpdateInterval := None\<rparr>)"

definition disconnect :: "server \<times> connection \<Rightarrow> server \<times> connection" where
  "disconnect w =
     (fst w, clearInterval (eventUpdateInterval (snd w))
               (clearInterval (sportUpdateInterval (snd w)) (snd w)))"

text \<open>A timer fires: its cycle starts, if the timer is still armed.\<close>

definition timerFires :: "platform \<Rightarrow> nat \<Rightarrow> server \<times> connection \<Rightarrow> server \<times> connection" where
  "timerFires env handle w =
     (case map_of (timers (snd w)) handle of
        None \<Rightarrow> w
      | Some armed \<Rightarrow> startCycle env (snd armed) False w)"

text \<open>What the event loop can deliver to a connection while the process lives, and a run of
  such events.\<close>

datatype event =
    SubscribeSport jsval
  | UnsubscribeSport
  | SubscribeEvent jsval
  | UnsubscribeEvent
  | Disconnect
  | TimerFires nat
  | Answer nat jsval

fun deliver :: "platform \<Rightarrow> event \<Rightarrow> server \<times> connection \<Rightarrow> server \<times> connection" where
  "deliver env (SubscribeSport sportName) w = subscribe_sport env sportName w"
| "deliver env UnsubscribeSport w = unsubscribe_sport w"
| "deliver env (SubscribeEvent data) w = subscribe_event env data w"
| "deliver env UnsubscribeEvent w = unsubscribe_event w"
| "deliver env Disconnect w = disconnect w"
| "deliver env (TimerFires handle) w = timerFires env handle w"
| "deliver env (Answer request answer) w = finishCycle env request answer w"

definition step :: "platform \<Rightarrow> event \<Rightarrow> server \<times> connection \<Rightarrow> server \<times> connection" where
  "step env e w = (if exited (snd w) then w else deliver env e w)"

fun run :: "platform \<Rightarrow> event list \<Rightarrow> server \<times> connection \<Rightarrow> server \<times> connection" where
  "run env [] w = w"
| "run env (e # es) w = run env es (step env e w)"

section \<open>Example data\<close>

text \<open>A payload with no market records, and a server whose two caches were
  filled by one request to each REST endpoint at time 1000.\<close>

text \<open>
  A collation for the example platform, built as the runtime's default collation is: the
  lower-cased strings are compared first, lexicographically; between strings that differ in
  case only, the first difference decides, and the lower-case letter comes first. On names
  made of ASCII letters, digits and spaces this is the order of the runtime.
\<close>

definition compareFolded :: "string \<Rightarrow> string \<Rightarrow> int" where
  "compareFolded s t =
     (if codeUnits (toLowerCase s) < codeUnits (toLowerCase t) then - 1
      else if codeUnits (toLowerCase t) < codeUnits (toLowerCase s) then 1
      else if codeUnits t < codeUnits s then - 1
      else if codeUnits s < codeUnits t then 1
      else 0)"

definition samplePlatform :: platform where
  "samplePlatform =
     \<lparr>numberToString = (\<lambda>q. ''0''), dateGetTime = (\<lambda>v. JNum 0),
      localeCompare = compareFolded, clock = 1500\<rparr>"

definition emptyPayload :: jsval where
  "emptyPayload = JObj [(''result'', JArr [])]"

definition warmServer :: server where
  "warmServer =
     snd (eventRoute samplePlatform (\<lambda>url. emptyPayload) 1000 ''cricket'' ''E1''
       (snd (sportRoute samplePlatform (\<lambda>url. emptyPayload) 1000 ''cricket'' initialServer)))"

definition busyConnection :: connection where
  "busyConnection =
     initialConnection
       \<lparr>timers := [(0, 5000, SportCycle ''cricket'' (JStr ''4''))],
        nextHandle := 1,
        inflight := [(0, SportCycle ''cricket'' (JStr ''4''), False),
                     (1, EventCycle ''cricket'' (JStr ''4'') (JStr ''E1''), False)],
        nextRequest := 2\<rparr>"

text \<open>The value a call returned, and a bucket of an event payload, as a list.\<close>

definition bucket :: "jsval \<Rightarrow> string \<Rightarrow> jsval list" where
  "bucket out name = elems (field (field out ''groupedMarkets'') name)"

definition resultOf :: "jsval outcome \<Rightarrow> jsval" where
  "resultOf r = (case r of Inl e \<Rightarrow> JUndefined | Inr v \<Rightarrow> v)"

text \<open>Market records that carry a name and an empty list of runners, what \<open>transformMarket\<close>
  makes of one, and an event with four of them.\<close>

definition marketRecord :: "string \<Rightarrow> jsval" where
  "marketRecord name = JObj [(''name'', JStr name), (''runners'', JArr [])]"

definition transformedRecord :: "string \<Rightarrow> jsval" where
  "transformedRecord name =
     JObj [(''id'', JUndefined), (''name'', JStr name), (''status'', JUndefined),
           (''inPlay'', JBool False), (''totalMatched'', JUndefined), (''numWinners'', JUndefined),
           (''start'', JUndefined), (''marketType'', JUndefined), (''sport'', JStr ''unknown''),
           (''runners'', JArr [])]"

definition tennisEvent :: jsval where
  "tennisEvent =
     JObj [(''result'', JArr [marketRecord ''Match Odds'', marketRecord ''Tied Match'',
                              marketRecord ''Set 1 Game 1 Winner'', marketRecord ''Total Aces''])]"

text \<open>
  A sport payload of five market records on three events. The second record has no runners.
  The first record of event E2 has no competition, its second record has one. And the match
  objects the transformer builds from it.
\<close>

definition cricketPayload :: jsval where
  "cricketPayload = JObj [(''result'', JArr
     [JObj [(''name'', JStr ''Match Odds''), (''event'', JObj [(''id'', JStr ''E1'')]),
            (''competition'', JObj [(''id'', JStr ''C2''), (''name'', JStr ''Beta League'')]),
            (''runners'', JArr [])],
      JObj [(''name'', JStr ''Over/Under 1.5''), (''event'', JObj [(''id'', JStr ''E1'')]),
            (''competition'', JObj [(''id'', JStr ''C2''), (''name'', JStr ''Beta League'')])],
      JObj [(''name'', JStr ''Match Odds''), (''event'', JObj [(''id'', JStr ''E2'')]),
            (''runners'', JArr [])],
      JObj [(''name'', JStr ''Tied Match''), (''event'', JObj [(''id'', JStr ''E2'')]),
            (''competition'', JObj [(''id'', JStr ''C1''), (''name'', JStr ''alpha Cup'')]),
            (''runners'', JArr [])],
      JObj [(''name'', JStr ''Match Odds''), (''event'', JObj [(''id'', JStr ''E3'')]),
            (''competition'', JObj [(''id'', JStr ''C1''), (''name'', JStr ''alpha Cup'')]),
            (''runners'', JArr [])]])]"

text \<open>A payload of one event, whose second record alone names a competition.\<close>

definition latePayload :: jsval where
  "latePayload = JObj [(''result'', JArr
     [JObj [(''name'', JStr ''Match Odds''), (''event'', JObj [(''id'', JStr ''E1'')]),
            (''runners'', JArr [])],
      JObj [(''name'', JStr ''Tied Match''), (''event'', JObj [(''id'', JStr ''E1'')]),
            (''competition'', JObj [(''id'', JStr ''C9''), (''name'', JStr ''Late Cup'')]),
            (''runners'', JArr [])]])]"

definition matchObject :: "string \<Rightarrow> jsval \<Rightarrow> jsval \<Rightarrow> jsval list \<Rightarrow> jsval" where
  "matchObject eventId competitionId competitionName markets =
     JObj [(''id'', JStr eventId), (''name'', JUndefined), (''venue'', JUndefined),
           (''startTime'', JUndefined), (''inPlay'', JBool False), (''sport'', JStr ''cricket''),
           (''competitionId'', competitionId), (''competition'', competitionName),
           (''markets'', JArr markets)]"

section \<open>The records of an event\<close>

text \<open>
  Notions to state what the grouping loop of \<open>transformSportData\<close> builds: the event id and
  the competition fields a record carries; the key under which a record is grouped (none
  when the callback returns early, or when the key names an inherited member, for which no
  match is ever created); the first record of a key; the transformed markets of a key, in
  order, those that are \<^verbatim>\<open>null\<close> left out; the match object built from a record; and the
  table of matches after a list of records.
\<close>

definition eventIdOf :: "jsval \<Rightarrow> jsval" where
  "eventIdOf market = field (field market ''event'') ''id''"

definition competitionIdOf :: "jsval \<Rightarrow> jsval" where
  "competitionIdOf market = optField (field market ''competition'') ''id''"

definition competitionNameOf :: "jsval \<Rightarrow> jsval" where
  "competitionNameOf market = optField (field market ''competition'') ''name''"

definition eventKey :: "platform \<Rightarrow> jsval \<Rightarrow> string option" where
  "eventKey env market =
     (if nullish market \<or> \<not> truthy (field market ''event'') \<or> \<not> truthy (eventIdOf market) then None
      else (case toStringE env (eventIdOf market) of
              Inl e \<Rightarrow> None
            | Inr key \<Rightarrow> if truthy (objectPrototype key) then None else Some key))"

definition firstRecord :: "platform \<Rightarrow> string \<Rightarrow> jsval list \<Rightarrow> jsval option" where
  "firstRecord env key records = find (\<lambda>r. eventKey env r = Some key) records"

definition marketsOf :: "platform \<Rightarrow> string \<Rightarrow> jsval list \<Rightarrow> jsval list" where
  "marketsOf env key records =
     filter truthy (map (\<lambda>r. resultOf (transformMarket r))
                        (filter (\<lambda>r. eventKey env r = Some key) records))"

definition matchOf :: "platform \<Rightarrow> string \<Rightarrow> jsval \<Rightarrow> jsval list \<Rightarrow> jsval" where
  "matchOf env sportName market markets =
     JObj
       [(''id'', eventIdOf market),
        (''name'', field (field market ''event'') ''name''),
        (''venue'', field (field market ''event'') ''venue''),
        (''startTime'', resultOf (startTimeE env (field market ''event'') (field market ''start''))),
        (''inPlay'', orElse (field market ''inPlay'') (JBool False)),
        (''sport'', JStr sportName),
        (''competitionId'', competitionIdOf market),
        (''competition'', competitionNameOf market),
        (''markets'', JArr markets)]"

definition keyOf :: "platform \<Rightarrow> jsval \<Rightarrow> string" where
  "keyOf env v = (case toStringE env v of Inl e \<Rightarrow> [] | Inr key \<Rightarrow> key)"

definition matchesInv :: "platform \<Rightarrow> string \<Rightarrow> jsval list \<Rightarrow> (string \<times> jsval) list \<Rightarrow> bool" where
  "matchesInv env sportName pre ms =
     (distinct (map fst ms)
      \<and> (\<forall>k. map_of ms k
             = map_option (\<lambda>r. matchOf env sportName r (marketsOf env k pre)) (firstRecord env k pre)))"

text \<open>
  The same for the table of competitions. A record that the callback does not drop registers
  the competition it carries when it carries an id and a name, under the key of the id
  (none when the key names an inherited member, which is never stored); the entry keeps the
  id and the name of the first record that registered the key. An event id is pushed to an
  entry when its match is created, by the first record of the event, if that record
  carries a competition id whose key is registered by then: \<open>recordsBefore\<close> are the records
  that precede the first record of an event. \<open>competitionsInv\<close> describes the table when the
  callback has run on the records \<open>pre\<close>, and (with \<open>extra\<close> a single record) between the two
  halves of a callback, when the next record has registered its competition and its match is
  not created yet. Last, the competitions of a payload and the matches listed under one.
\<close>

definition competitionOf :: "jsval \<Rightarrow> jsval \<Rightarrow> jsval list \<Rightarrow> jsval" where
  "competitionOf competitionId competitionName ids =
     JObj [(''id'', competitionId), (''name'', competitionName), (''matches'', JArr ids)]"

definition registers :: "platform \<Rightarrow> jsval \<Rightarrow> string option" where
  "registers env market =
     (if nullish market \<or> \<not> truthy (field market ''event'') \<or> \<not> truthy (eventIdOf market)
         \<or> \<not> truthy (competitionIdOf market) \<or> \<not> truthy (competitionNameOf market)
      then None
      else (case toStringE env (competitionIdOf market) of
              Inl e \<Rightarrow> None
            | Inr key \<Rightarrow> if truthy (objectPrototype key) then None else Some key))"

definition firstRegistrar :: "platform \<Rightarrow> string \<Rightarrow> jsval list \<Rightarrow> jsval option" where
  "firstRegistrar env key records = find (\<lambda>r. registers env r = Some key) records"

definition recordsBefore :: "platform \<Rightarrow> string \<Rightarrow> jsval list \<Rightarrow> jsval list" where
  "recordsBefore env key records = takeWhile (\<lambda>r. eventKey env r \<noteq> Some key) records"

definition pushedBy :: "platform \<Rightarrow> jsval list \<Rightarrow> string \<Rightarrow> jsval \<Rightarrow> bool" where
  "pushedBy env pre ck e =
     (case firstRecord env (keyOf env e) pre of
        None \<Rightarrow> False
      | Some r \<Rightarrow> eventIdOf r = e \<and> truthy (competitionIdOf r)
                  \<and> toStringE env (competitionIdOf r) = Returns ck)"

definition joined :: "(string \<times> jsval) list \<Rightarrow> string \<Rightarrow> jsval \<Rightarrow> bool" where
  "joined cs ck e =
     (case map_of cs ck of None \<Rightarrow> False | Some c \<Rightarrow> e \<in> set (elems (field c ''matches'')))"

definition competitionsInv ::
  "platform \<Rightarrow> jsval list \<Rightarrow> jsval list \<Rightarrow> (string \<times> jsval) list \<Rightarrow> bool" where
  "competitionsInv env pre extra cs =
     (distinct (map fst cs)
      \<and> (\<forall>ck. map_of cs ck = None \<longrightarrow> firstRegistrar env ck (pre @ extra) = None)
      \<and> (\<forall>ck c. map_of cs ck = Some c \<longrightarrow>
            (\<exists>x ids. firstRegistrar env ck (pre @ extra) = Some x
               \<and> c = competitionOf (competitionIdOf x) (competitionNameOf x) ids
               \<and> distinct (map (keyOf env) ids) \<and> (\<forall>e \<in> set ids. pushedBy env pre ck e)))
      \<and> (\<forall>k r. firstRecord env k pre = Some r \<and> truthy (competitionIdOf r) \<longrightarrow>
            (\<exists>ck. toStringE env (competitionIdOf r) = Returns ck \<and> \<not> truthy (objectPrototype ck)
               \<and> (joined cs ck (eventIdOf r)
                    \<longleftrightarrow> (\<exists>x \<in> set (recordsBefore env k pre @ [r]). registers env x = Some ck)))))"

definition competitionsOf :: "jsval \<Rightarrow> jsval list" where
  "competitionsOf out = elems (field out ''competitions'')"

definition listedMatches :: "jsval \<Rightarrow> jsval list" where
  "listedMatches competition = elems (field competition ''matches'')"

text \<open>
  A record that cannot make the callback throw, with or without runners: it is not
  \<^verbatim>\<open>null\<close>, and if it is not dropped, its event id converts to a key that names no inherited
  member, its start time can be computed, its competition id, if it has one, converts to
  such a key as well, and its competition name, if it has both, is a string.
\<close>

definition regularKey :: "platform \<Rightarrow> jsval \<Rightarrow> bool" where
  "regularKey env v =
     (case toStringE env v of Inl e \<Rightarrow> False | Inr key \<Rightarrow> \<not> truthy (objectPrototype key))"

definition plainRecord :: "platform \<Rightarrow> jsval \<Rightarrow> bool" where
  "plainRecord env market =
     (\<not> nullish market
      \<and> (truthy (field market ''event'') \<and> truthy (eventIdOf market) \<longrightarrow>
           regularKey env (eventIdOf market)
           \<and> (case startTimeE env (field market ''event'') (field market ''start'') of
                 Inl e \<Rightarrow> False | Inr t \<Rightarrow> True)
           \<and> (truthy (competitionIdOf market) \<longrightarrow>
                regularKey env (competitionIdOf market)
                \<and> (truthy (competitionNameOf market) \<longrightarrow>
                     (case competitionNameOf market of JStr s \<Rightarrow> True | _ \<Rightarrow> False)))))"

section \<open>Type codes of unknown sports\<close>

lemma getSportTypeId_known:
  "getSportTypeId ''Cricket'' = JStr ''4'' \<and> getSportTypeId ''FOOTBALL'' = JStr ''1''
   \<and> getSportTypeId ''tennis'' = JStr ''2''"
  by (simp add: getSportTypeId_def toLowerCase_def toLowerCaseChar_def SPORT_TYPE_IDS_def
      tableGet_def orElse_def)

lemma getSportTypeId_default:
  assumes "toLowerCase sportName \<notin> set (map fst SPORT_TYPE_IDS)"
    and "objectPrototype (toLowerCase sportName) = JUndefined"
  shows "getSportTypeId sportName = JStr ''4''"
proof -
  from assms(1) have "map_of SPORT_TYPE_IDS (toLowerCase sportName) = None"
    by (simp add: map_of_eq_None_iff)
  with assms(2) show ?thesis
    by (simp add: getSportTypeId_def tableGet_def orElse_def)
qed

text \<open>
  C9. The claim: for every sport name whose lower-case form is not cricket, football or
  tennis, \<open>getSportTypeId\<close> returns the cricket code \<open>'4'\<close>. The source's comment says the
  same (default to cricket if not found). The table is an object literal, so the name
  \<open>constructor\<close> finds the inherited \<^verbatim>\<open>Object\<close> function, which is truthy: the default is
  not taken and the type code is that function.
\<close>

theorem getSportTypeId_constructor:
  "toLowerCase ''constructor'' \<noteq> ''cricket'' \<and> toLowerCase ''constructor'' \<noteq> ''football''
   \<and> toLowerCase ''constructor'' \<noteq> ''tennis''
   \<and> getSportTypeId ''constructor'' = JBuiltin ''Object''
   \<and> getSportTypeId ''constructor'' \<noteq> JStr ''4''"
  by (simp add: getSportTypeId_def toLowerCase_def toLowerCaseChar_def SPORT_TYPE_IDS_def
      tableGet_def objectPrototype_def orElse_def)


section \<open>The transformers return\<close>

lemma transformMarket_returns: "\<exists>m. transformMarket market = Returns m"
  by (simp add: transformMarket_def split: sum.splits)


lemma transformEventData_returns: "\<exists>out. transformEventData env data sportName = Returns out"
  by (simp add: transformEventData_def split: sum.splits)

text \<open>
  C7. \<open>transformSportData\<close> never raises past its boundary: it returns for every input;
  when the raw argument or its \<open>result\<close> field is absent (falsy) the result is
  \<open>{success: false, message: 'Invalid data format', sport}\<close>, and when the body of the
  \<^verbatim>\<open>try\<close> block throws, the result is \<open>{success: false, message, sport}\<close> with the
  error's message in the text.
\<close>

theorem transformSportData_never_raises:
  "\<exists>out. transformSportData env data sportName = Returns out
     \<and> (\<not> truthy data \<or> \<not> truthy (field data ''result'') \<longrightarrow>
          out = JObj [(''success'', JBool False), (''message'', JStr ''Invalid data format''),
                      (''sport'', JStr sportName)])
     \<and> (\<forall>e. truthy data \<and> truthy (field data ''result'')
              \<and> sportBody env data sportName = Throws e \<longrightarrow>
          out = JObj [(''success'', JBool False),
                      (''message'', JStr (''Error transforming '' @ sportName @ '' data: '' @ message e)),
                      (''sport'', JStr sportName)])"
  by (auto simp add: transformSportData_def failure_def split: sum.splits)

lemma sportBody_null_record:
  "sportBody samplePlatform (JObj [(''result'', JArr [JNull])]) ''cricket''
   = Throws (TypeError ''Cannot read properties of null (reading 'event')'')"
  by (simp add: sportBody_def groupMarkets_def processMarket_def bindE_def cannotRead_def)

theorem transformSportData_never_raises_witness:
  "transformSportData samplePlatform JNull ''cricket''
     = Returns (JObj [(''success'', JBool False), (''message'', JStr ''Invalid data format''),
                      (''sport'', JStr ''cricket'')])
   \<and> transformSportData samplePlatform (JObj [(''result'', JArr [JNull])]) ''cricket''
     = Returns (JObj [(''success'', JBool False),
          (''message'',
           JStr ''Error transforming cricket data: Cannot read properties of null (reading 'event')''),
          (''sport'', JStr ''cricket'')])"
  using transformSportData_never_raises [of samplePlatform JNull "''cricket''"]
    transformSportData_never_raises [of samplePlatform "JObj [(''result'', JArr [JNull])]" "''cricket''"]
    sportBody_null_record
  by auto

section \<open>Subscriptions: timers\<close>

lemma getSportTypeId_cricket: "getSportTypeId ''cricket'' = JStr ''4''"
  by (simp add: getSportTypeId_def toLowerCase_def toLowerCaseChar_def SPORT_TYPE_IDS_def
      tableGet_def orElse_def)

lemma toLowerCase_cricket: "toLowerCase ''cricket'' = ''cricket''"
  by (simp add: toLowerCase_def toLowerCaseChar_def)

lemma sportUrl_cricket [simp]:
  "sportUrl env (getSportTypeId ''cricket'') = Returns ''https://gobook9.com/api/exchange/odds/eventType/4''"
  by (simp add: getSportTypeId_cricket sportUrl_def bindE_def API_BASE_URL_def)

lemma eventUrl_cricket [simp]:
  "eventUrl env (getSportTypeId ''cricket'') (JStr ''E1'')
   = Returns ''https://gobook9.com/api/exchange/odds/d-sma-event/4/E1''"
  by (simp add: getSportTypeId_cricket eventUrl_def bindE_def API_BASE_URL_def)

lemma emitUpdate_fields [simp]:
  "timers (emitUpdate env cy answer c) = timers c"
  "nextHandle (emitUpdate env cy answer c) = nextHandle c"
  "inflight (emitUpdate env cy answer c) = inflight c"
  "nextRequest (emitUpdate env cy answer c) = nextRequest c"
  "sportUpdateInterval (emitUpdate env cy answer c) = sportUpdateInterval c"
  "eventUpdateInterval (emitUpdate env cy answer c) = eventUpdateInterval c"
  "exited (emitUpdate env cy answer c) = exited c"
  by (simp_all add: emitUpdate_def split: cycle.splits sum.splits)

lemmas engine_defs = subscribe_sport_def unsubscribe_sport_def subscribe_event_def
  unsubscribe_event_def disconnect_def timerFires_def finishCycle_def startCycle_def
  cycleUrl_def sportUrl_def eventUrl_def setInterval_def clearInterval_def
  initialConnection_def bindE_def API_BASE_URL_def Let_def step_def unhandledRejection_def

text \<open>
  C4. The claim: at most one sport-lane timer is ever active on a connection, also when a
  second \<open>subscribe_sport\<close> arrives while the first call's initial fetch is in flight. The
  handler clears the old timer before its \<^verbatim>\<open>await\<close> and arms the new one after it. When
  two calls overlap, both clear (nothing) first and both arm afterwards: two timers run,
  whatever the upstream answers, and the variable holds only the second handle, so the
  first timer survives \<open>unsubscribe_sport\<close> and the disconnection.
\<close>

theorem subscribe_sport_overlap_two_timers:
  "timers (snd (run env
      [SubscribeSport (JStr ''cricket''), SubscribeSport (JStr ''cricket''),
       Answer 0 first, Answer 1 second]
      (srv, initialConnection)))
     = [(0, 5000, SportCycle ''cricket'' (JStr ''4'')), (1, 5000, SportCycle ''cricket'' (JStr ''4''))]
   \<and> timers (snd (run env
      [SubscribeSport (JStr ''cricket''), SubscribeSport (JStr ''cricket''),
       Answer 0 first, Answer 1 second, UnsubscribeSport, Disconnect]
      (srv, initialConnection)))
     = [(0, 5000, SportCycle ''cricket'' (JStr ''4''))]"
  by (simp add: engine_defs getSportTypeId_cricket)

section \<open>Subscriptions: the caches\<close>

lemma transformSportData_empty:
  "transformSportData env emptyPayload sportName
   = Returns (JObj [(''success'', JBool True), (''sport'', JStr sportName), (''competitions'', JArr []),
        (''matchCount'', JNum 0), (''timestamp'', JNum (of_int (clock env)))])"
  by (simp add: transformSportData_def emptyPayload_def sportBody_def groupMarkets_def bindE_def
      ownValues_def sortByName_def)

lemma transformEventData_empty:
  "transformEventData env emptyPayload sportName
   = Returns (JObj [(''success'', JBool True), (''sport'', JStr sportName),
        (''event'', JObj [(''id'', JUndefined), (''name'', JUndefined), (''venue'', JUndefined),
           (''startTime'', JUndefined), (''inPlay'', JBool False), (''competition'', JUndefined),
           (''competitionId'', JUndefined)]),
        (''markets'', JArr []),
        (''groupedMarkets'', JObj [(''matchOdds'', JUndefined), (''tiedMatch'', JUndefined),
           (''overUnderMarkets'', JArr []), (''setMarkets'', JArr []), (''gameMarkets'', JArr []),
           (''otherMarkets'', JArr [])]),
        (''timestamp'', JNum (of_int (clock env)))])"
  by (simp add: transformEventData_def emptyPayload_def eventBody_def groupedMarkets_def bindE_def
      startTimeE_def
      firstOf_def orElse_def optField_def findFirst_def)

lemma truthy_emptyPayload: "truthy emptyPayload"
  by (simp add: emptyPayload_def)

lemma warmServer_eq:
  "warmServer =
     \<lparr>sportsDataCache =
        [(''cricket'', cacheEntry (JObj [(''success'', JBool True), (''sport'', JStr ''cricket''),
            (''competitions'', JArr []), (''matchCount'', JNum 0), (''timestamp'', JNum 1500)]) 1000),
         (''football'', cacheEntry JNull 0), (''tennis'', cacheEntry JNull 0)],
      eventDataCache =
        [(''cricket_E1'', cacheEntry (JObj [(''success'', JBool True), (''sport'', JStr ''cricket''),
        (''event'', JObj [(''id'', JUndefined), (''name'', JUndefined), (''venue'', JUndefined),
           (''startTime'', JUndefined), (''inPlay'', JBool False), (''competition'', JUndefined),
           (''competitionId'', JUndefined)]),
        (''markets'', JArr []),
        (''groupedMarkets'', JObj [(''matchOdds'', JUndefined), (''tiedMatch'', JUndefined),
           (''overUnderMarkets'', JArr []), (''setMarkets'', JArr []), (''gameMarkets'', JArr []),
           (''otherMarkets'', JArr [])]),
        (''timestamp'', JNum 1500)]) 1000)],
      requested = [''https://gobook9.com/api/exchange/odds/eventType/4'',
                   ''https://gobook9.com/api/exchange/odds/d-sma-event/4/E1'']\<rparr>"
  by (simp add: warmServer_def sportRoute_def sportRouteStart_def sportRouteFinish_def eventRoute_def
      eventRouteStart_def eventRouteFinish_def
      initialServer_def getSportTypeId_cricket toLowerCase_cricket cacheFresh_def tableGet_def
      cacheEntry_def sportUrl_def eventUrl_def bindE_def API_BASE_URL_def
      transformSportData_empty transformEventData_empty samplePlatform_def Let_def
      truthy_emptyPayload objectPrototype_def)

lemma emitted_emitUpdate_sport:
  "transformSportData env answer name = Returns payload \<Longrightarrow>
   emitted (emitUpdate env (SportCycle name tid) answer c)
     = (if truthy answer then emitted c @ [(''sport_update'', payload)] else emitted c)"
  by (simp add: emitUpdate_def)

lemma emitted_emitUpdate_event:
  "transformEventData env answer name = Returns payload \<Longrightarrow>
   emitted (emitUpdate env (EventCycle name tid eid) answer c)
     = (if truthy answer then emitted c @ [(''event_update'', payload)] else emitted c)"
  by (simp add: emitUpdate_def)

lemma emitted_setInterval [simp]: "emitted (setInterval cy c) = emitted c"
  by (simp add: setInterval_def split: cycle.splits)

lemma emitted_clearInterval [simp]: "emitted (clearInterval h c) = emitted c"
  by (simp add: clearInterval_def split: option.splits)

lemma startCycle_caches:
  "sportsDataCache (fst (startCycle env cy ini w)) = sportsDataCache (fst w)
   \<and> eventDataCache (fst (startCycle env cy ini w)) = eventDataCache (fst w)"
  by (simp add: startCycle_def split: sum.splits)

lemma deliver_caches:
  "sportsDataCache (fst (deliver env e w)) = sportsDataCache (fst w)
   \<and> eventDataCache (fst (deliver env e w)) = eventDataCache (fst w)"
  by (cases e)
    (simp_all add: subscribe_sport_def unsubscribe_sport_def subscribe_event_def
      unsubscribe_event_def disconnect_def timerFires_def finishCycle_def startCycle_caches Let_def
      unhandledRejection_def
      split: sum.splits jsval.splits option.splits)

lemma step_caches:
  "sportsDataCache (fst (step env e w)) = sportsDataCache (fst w)
   \<and> eventDataCache (fst (step env e w)) = eventDataCache (fst w)"
  by (simp add: step_def deliver_caches)

lemma startCycle_cache_blind:
  "snd (startCycle env cy ini (srv\<lparr>sportsDataCache := sc, eventDataCache := ec\<rparr>, c))
     = snd (startCycle env cy ini (srv, c))
   \<and> requested (fst (startCycle env cy ini (srv\<lparr>sportsDataCache := sc, eventDataCache := ec\<rparr>, c)))
     = requested (fst (startCycle env cy ini (srv, c)))"
  by (simp add: startCycle_def split: sum.splits)

lemma deliver_cache_blind:
  "snd (deliver env e (srv\<lparr>sportsDataCache := sc, eventDataCache := ec\<rparr>, c)) = snd (deliver env e (srv, c))
   \<and> requested (fst (deliver env e (srv\<lparr>sportsDataCache := sc, eventDataCache := ec\<rparr>, c)))
     = requested (fst (deliver env e (srv, c)))"
  by (cases e)
    (simp_all add: subscribe_sport_def unsubscribe_sport_def subscribe_event_def
      unsubscribe_event_def disconnect_def timerFires_def finishCycle_def startCycle_cache_blind Let_def
      unhandledRejection_def
      split: sum.splits jsval.splits option.splits)

lemma step_cache_blind:
  "snd (step env e (srv\<lparr>sportsDataCache := sc, eventDataCache := ec\<rparr>, c)) = snd (step env e (srv, c))
   \<and> requested (fst (step env e (srv\<lparr>sportsDataCache := sc, eventDataCache := ec\<rparr>, c)))
     = requested (fst (step env e (srv, c)))"
  by (simp add: step_def deliver_cache_blind)

text \<open>What a subscription does, step by step.\<close>

lemma subscribe_sport_requests:
  assumes "sportUrl env (getSportTypeId name) = Returns url"
  shows "requested (fst (subscribe_sport env (JStr name) w)) = requested (fst w) @ [url]"
    and "inflight (snd (subscribe_sport env (JStr name) w))
         = inflight (snd w) @ [(nextRequest (snd w), SportCycle name (getSportTypeId name), True)]"
  using assms
  by (simp_all add: subscribe_sport_def startCycle_def cycleUrl_def clearInterval_def Let_def
      split: option.splits)

lemma eventUrl_Returns:
  assumes "eventUrl env tid eventId = Returns url"
  obtains e where "toStringE env eventId = Returns e"
  using assms
  by (cases "toStringE env tid"; cases "toStringE env eventId") (simp_all add: eventUrl_def bindE_def)

lemma subscribe_event_requests:
  assumes "\<not> nullish data" and "field data ''sportName'' = JStr name"
    and "eventUrl env (getSportTypeId name) (field data ''eventId'') = Returns url"
  shows "requested (fst (subscribe_event env data w)) = requested (fst w) @ [url]"
    and "inflight (snd (subscribe_event env data w))
         = inflight (snd w)
           @ [(nextRequest (snd w), EventCycle name (getSportTypeId name) (field data ''eventId''), True)]"
proof -
  from assms(3) obtain e where "toStringE env (field data ''eventId'') = Returns e"
    by (rule eventUrl_Returns)
  with assms
  show "requested (fst (subscribe_event env data w)) = requested (fst w) @ [url]"
    and "inflight (snd (subscribe_event env data w))
         = inflight (snd w)
           @ [(nextRequest (snd w), EventCycle name (getSportTypeId name) (field data ''eventId''), True)]"
    by (simp_all add: subscribe_event_def startCycle_def cycleUrl_def clearInterval_def Let_def
        bindE_def split: option.splits)
qed

lemma timerFires_requests:
  assumes "map_of (timers (snd w)) handle = Some (period, cy)" and "cycleUrl env cy = Returns url"
  shows "requested (fst (timerFires env handle w)) = requested (fst w) @ [url]"
    and "inflight (snd (timerFires env handle w)) = inflight (snd w) @ [(nextRequest (snd w), cy, False)]"
  using assms by (simp_all add: timerFires_def startCycle_def)

lemma finishCycle_arms:
  assumes "map_of (inflight (snd w)) request = Some (cy, True)"
  shows "timers (snd (finishCycle env request answer w))
         = timers (snd w)
           @ [(nextHandle (snd w), case cy of SportCycle n t \<Rightarrow> 5000 | EventCycle n t e \<Rightarrow> 1000, cy)]"
  using assms by (simp add: finishCycle_def setInterval_def Let_def split: cycle.splits)

text \<open>
  C1. The claim: every cycle started by \<open>subscribe_sport\<close> or \<open>subscribe_event\<close> consults
  its cache first; on a tick with a fresh entry the upstream client is not invoked and the
  cached payload is pushed. The cycles of the source call \<open>apiRequest\<close> and never name
  either cache. First the claim refuted: with both caches filled at time 1000 (the sport
  entry is fresh at time 2000), a subscription to cricket sends a request for its initial
  fetch and another at the first tick, and pushes the transformed answers (stamped 2000),
  not the cached payload (stamped 1500).
\<close>

theorem subscription_ignores_fresh_cache:
  "cacheFresh (sportsDataCache warmServer) ''cricket'' 2000 CACHE_TTL
   \<and> field (tableGet (sportsDataCache warmServer) ''cricket'') ''data''
       = JObj [(''success'', JBool True), (''sport'', JStr ''cricket''), (''competitions'', JArr []),
               (''matchCount'', JNum 0), (''timestamp'', JNum 1500)]
   \<and> requested (fst (run (samplePlatform\<lparr>clock := 2000\<rparr>)
         [SubscribeSport (JStr ''cricket''), Answer 0 emptyPayload, TimerFires 0, Answer 1 emptyPayload]
         (warmServer, initialConnection)))
       = requested warmServer @ [''https://gobook9.com/api/exchange/odds/eventType/4'',
                                 ''https://gobook9.com/api/exchange/odds/eventType/4'']
   \<and> emitted (snd (run (samplePlatform\<lparr>clock := 2000\<rparr>)
         [SubscribeSport (JStr ''cricket''), Answer 0 emptyPayload, TimerFires 0, Answer 1 emptyPayload]
         (warmServer, initialConnection)))
       = [(''sport_update'', JObj [(''success'', JBool True), (''sport'', JStr ''cricket''),
              (''competitions'', JArr []), (''matchCount'', JNum 0), (''timestamp'', JNum 2000)]),
          (''sport_update'', JObj [(''success'', JBool True), (''sport'', JStr ''cricket''),
              (''competitions'', JArr []), (''matchCount'', JNum 0), (''timestamp'', JNum 2000)])]"
  by (simp add: warmServer_eq engine_defs getSportTypeId_cricket emitUpdate_def truthy_emptyPayload
      transformSportData_empty cacheFresh_def tableGet_def cacheEntry_def CACHE_TTL_def
      samplePlatform_def)

text \<open>
  C1, amended. No event of a connection writes either cache, and none reads one: with any
  other cache contents the connection does the same and sends the same requests. A
  \<open>subscribe_sport\<close> with a sport name, and a \<open>subscribe_event\<close> with a sport name and an event
  id, send the request of their initial fetch to the upstream client at once; the answer to
  an initial fetch arms the timer of the cycle; every tick of an armed timer sends the
  cycle's request again. When the answer of a cycle arrives, the transformed answer is
  pushed if the answer is truthy, and nothing is pushed otherwise.
\<close>

theorem subscription_cycle_bypasses_cache:
  "sportsDataCache (fst (step env e w)) = sportsDataCache (fst w)
   \<and> eventDataCache (fst (step env e w)) = eventDataCache (fst w)
   \<and> snd (step env e (srv\<lparr>sportsDataCache := sc, eventDataCache := ec\<rparr>, c)) = snd (step env e (srv, c))
   \<and> requested (fst (step env e (srv\<lparr>sportsDataCache := sc, eventDataCache := ec\<rparr>, c)))
       = requested (fst (step env e (srv, c)))
   \<and> (\<not> exited (snd w) \<and> sportUrl env (getSportTypeId name) = Returns url \<longrightarrow>
        requested (fst (step env (SubscribeSport (JStr name)) w)) = requested (fst w) @ [url]
        \<and> inflight (snd (step env (SubscribeSport (JStr name)) w))
            = inflight (snd w) @ [(nextRequest (snd w), SportCycle name (getSportTypeId name), True)])
   \<and> (\<not> exited (snd w) \<and> \<not> nullish data \<and> field data ''sportName'' = JStr name
        \<and> eventUrl env (getSportTypeId name) (field data ''eventId'') = Returns url \<longrightarrow>
        requested (fst (step env (SubscribeEvent data) w)) = requested (fst w) @ [url]
        \<and> inflight (snd (step env (SubscribeEvent data) w))
            = inflight (snd w)
              @ [(nextRequest (snd w), EventCycle name (getSportTypeId name) (field data ''eventId''), True)])
   \<and> (\<not> exited (snd w) \<and> map_of (inflight (snd w)) request = Some (cy, True) \<longrightarrow>
        timers (snd (step env (Answer request answer) w))
          = timers (snd w)
            @ [(nextHandle (snd w), case cy of SportCycle n t \<Rightarrow> 5000 | EventCycle n t i \<Rightarrow> 1000, cy)])
   \<and> (\<not> exited (snd w) \<and> map_of (timers (snd w)) handle = Some (period, cy)
        \<and> cycleUrl env cy = Returns url \<longrightarrow>
        requested (fst (step env (TimerFires handle) w)) = requested (fst w) @ [url]
        \<and> inflight (snd (step env (TimerFires handle) w))
            = inflight (snd w) @ [(nextRequest (snd w), cy, False)])
   \<and> (\<not> exited (snd w) \<and> map_of (inflight (snd w)) request = Some (SportCycle name tid, initial)
        \<and> transformSportData env answer name = Returns payload \<longrightarrow>
        emitted (snd (step env (Answer request answer) w))
          = (if truthy answer then emitted (snd w) @ [(''sport_update'', payload)] else emitted (snd w)))
   \<and> (\<not> exited (snd w) \<and> map_of (inflight (snd w)) request = Some (EventCycle name tid eventId, initial)
        \<and> transformEventData env answer name = Returns payload \<longrightarrow>
        emitted (snd (step env (Answer request answer) w))
          = (if truthy answer then emitted (snd w) @ [(''event_update'', payload)] else emitted (snd w)))"
proof -
  have sub_sport: "\<not> exited (snd w) \<and> sportUrl env (getSportTypeId name) = Returns url \<longrightarrow>
        requested (fst (step env (SubscribeSport (JStr name)) w)) = requested (fst w) @ [url]
        \<and> inflight (snd (step env (SubscribeSport (JStr name)) w))
            = inflight (snd w) @ [(nextRequest (snd w), SportCycle name (getSportTypeId name), True)]"
    using subscribe_sport_requests [of env name url w] by (simp add: step_def)
  have sub_event: "\<not> exited (snd w) \<and> \<not> nullish data \<and> field data ''sportName'' = JStr name
        \<and> eventUrl env (getSportTypeId name) (field data ''eventId'') = Returns url \<longrightarrow>
        requested (fst (step env (SubscribeEvent data) w)) = requested (fst w) @ [url]
        \<and> inflight (snd (step env (SubscribeEvent data) w))
            = inflight (snd w)
              @ [(nextRequest (snd w), EventCycle name (getSportTypeId name) (field data ''eventId''), True)]"
    using subscribe_event_requests [of data name env url w] by (simp add: step_def)
  have arm: "\<not> exited (snd w) \<and> map_of (inflight (snd w)) request = Some (cy, True) \<longrightarrow>
        timers (snd (step env (Answer request answer) w))
          = timers (snd w)
            @ [(nextHandle (snd w), case cy of SportCycle n t \<Rightarrow> 5000 | EventCycle n t i \<Rightarrow> 1000, cy)]"
    using finishCycle_arms [of w request cy env answer] by (simp add: step_def)
  have tick: "\<not> exited (snd w) \<and> map_of (timers (snd w)) handle = Some (period, cy)
        \<and> cycleUrl env cy = Returns url \<longrightarrow>
        requested (fst (step env (TimerFires handle) w)) = requested (fst w) @ [url]
        \<and> inflight (snd (step env (TimerFires handle) w))
            = inflight (snd w) @ [(nextRequest (snd w), cy, False)]"
    using timerFires_requests [of w handle period cy env url] by (simp add: step_def)
  have sport: "\<not> exited (snd w) \<and> map_of (inflight (snd w)) request = Some (SportCycle name tid, initial)
        \<and> transformSportData env answer name = Returns payload \<longrightarrow>
        emitted (snd (step env (Answer request answer) w))
          = (if truthy answer then emitted (snd w) @ [(''sport_update'', payload)] else emitted (snd w))"
    by (simp add: step_def finishCycle_def emitted_emitUpdate_sport Let_def)
  have event: "\<not> exited (snd w) \<and> map_of (inflight (snd w)) request = Some (EventCycle name tid eventId, initial)
        \<and> transformEventData env answer name = Returns payload \<longrightarrow>
        emitted (snd (step env (Answer request answer) w))
          = (if truthy answer then emitted (snd w) @ [(''event_update'', payload)] else emitted (snd w))"
    by (simp add: step_def finishCycle_def emitted_emitUpdate_event Let_def)
  from step_caches [of env e w]
    step_cache_blind [where env=env and e=e and srv=srv and sc=sc and ec=ec and c=c]
    sub_sport sub_event arm tick sport event
  show ?thesis by blast
qed

theorem subscription_cycle_bypasses_cache_witness:
  "requested (fst (step samplePlatform (SubscribeSport (JStr ''cricket'')) (warmServer, busyConnection)))
     = requested warmServer @ [''https://gobook9.com/api/exchange/odds/eventType/4'']
   \<and> requested (fst (step samplePlatform
        (SubscribeEvent (JObj [(''sportName'', JStr ''cricket''), (''eventId'', JStr ''E1'')]))
        (warmServer, busyConnection)))
     = requested warmServer @ [''https://gobook9.com/api/exchange/odds/d-sma-event/4/E1'']
   \<and> requested (fst (step samplePlatform (TimerFires 0) (warmServer, busyConnection)))
     = requested warmServer @ [''https://gobook9.com/api/exchange/odds/eventType/4'']
   \<and> emitted (snd (step samplePlatform (Answer 0 emptyPayload) (warmServer, busyConnection)))
     = [(''sport_update'', JObj [(''success'', JBool True), (''sport'', JStr ''cricket''),
          (''competitions'', JArr []), (''matchCount'', JNum 0), (''timestamp'', JNum 1500)])]
   \<and> emitted (snd (step samplePlatform (Answer 1 JNull) (warmServer, busyConnection))) = []
   \<and> timers (snd (step samplePlatform (Answer 0 emptyPayload)
        (step samplePlatform (SubscribeSport (JStr ''cricket'')) (warmServer, initialConnection))))
     = [(0, 5000, SportCycle ''cricket'' (JStr ''4''))]"
proof -
  let ?w = "(warmServer, busyConnection)"
  let ?subscribed = "step samplePlatform (SubscribeSport (JStr ''cricket'')) (warmServer, initialConnection)"
  have subscribed: "\<not> exited (snd ?subscribed)"
    "map_of (inflight (snd ?subscribed)) 0 = Some (SportCycle ''cricket'' (JStr ''4''), True)"
    "timers (snd ?subscribed) = []" "nextHandle (snd ?subscribed) = 0"
    by (simp_all add: warmServer_eq engine_defs getSportTypeId_cricket)
  note third = subscription_cycle_bypasses_cache [where env=samplePlatform and w="?subscribed"
      and request=0 and cy="SportCycle ''cricket'' (JStr ''4'')" and answer=emptyPayload]
  from third subscribed(1,2)
  have "timers (snd (step samplePlatform (Answer 0 emptyPayload) ?subscribed))
        = timers (snd ?subscribed)
          @ [(nextHandle (snd ?subscribed),
              case SportCycle ''cricket'' (JStr ''4'') of SportCycle n t \<Rightarrow> 5000 | EventCycle n t i \<Rightarrow> 1000,
              SportCycle ''cricket'' (JStr ''4''))]"
    by blast
  with subscribed(3,4)
  have armed: "timers (snd (step samplePlatform (Answer 0 emptyPayload) ?subscribed))
        = [(0, 5000, SportCycle ''cricket'' (JStr ''4''))]"
    by simp
  have alive: "\<not> exited (snd ?w)"
    by (simp add: busyConnection_def initialConnection_def)
  have timer: "map_of (timers (snd ?w)) 0 = Some (5000, SportCycle ''cricket'' (JStr ''4''))"
    by (simp add: busyConnection_def initialConnection_def)
  have waiting: "map_of (inflight (snd ?w)) 0 = Some (SportCycle ''cricket'' (JStr ''4''), False)"
    "map_of (inflight (snd ?w)) 1 = Some (EventCycle ''cricket'' (JStr ''4'') (JStr ''E1''), False)"
    by (simp_all add: busyConnection_def initialConnection_def)
  have url: "cycleUrl samplePlatform (SportCycle ''cricket'' (JStr ''4''))
             = Returns ''https://gobook9.com/api/exchange/odds/eventType/4''"
    by (simp add: cycleUrl_def sportUrl_def bindE_def API_BASE_URL_def)
  have payload: "transformSportData samplePlatform emptyPayload ''cricket''
     = Returns (JObj [(''success'', JBool True), (''sport'', JStr ''cricket''),
          (''competitions'', JArr []), (''matchCount'', JNum 0), (''timestamp'', JNum 1500)])"
    by (simp add: transformSportData_empty samplePlatform_def)
  have failed: "transformEventData samplePlatform JNull ''cricket''
     = Returns (failure ''Invalid event data format'' ''cricket'')"
    by (simp add: transformEventData_def)
  note first = subscription_cycle_bypasses_cache [where env=samplePlatform and w="?w"
      and name="''cricket''" and url="''https://gobook9.com/api/exchange/odds/eventType/4''"
      and handle=0 and period=5000 and cy="SportCycle ''cricket'' (JStr ''4'')"
      and request=0 and tid="JStr ''4''" and initial=False and answer=emptyPayload
      and payload="JObj [(''success'', JBool True), (''sport'', JStr ''cricket''),
          (''competitions'', JArr []), (''matchCount'', JNum 0), (''timestamp'', JNum 1500)]"]
  note second = subscription_cycle_bypasses_cache [where env=samplePlatform and w="?w"
      and name="''cricket''" and url="''https://gobook9.com/api/exchange/odds/d-sma-event/4/E1''"
      and data="JObj [(''sportName'', JStr ''cricket''), (''eventId'', JStr ''E1'')]"
      and request=1 and tid="JStr ''4''" and eventId="JStr ''E1''" and initial=False and answer=JNull
      and payload="failure ''Invalid event data format'' ''cricket''"]
  have quiet: "emitted (snd ?w) = []"
    by (simp add: busyConnection_def initialConnection_def)
  from first alive timer waiting(1) url payload sportUrl_cricket [of samplePlatform]
  have a: "requested (fst (step samplePlatform (SubscribeSport (JStr ''cricket'')) ?w))
     = requested (fst ?w) @ [''https://gobook9.com/api/exchange/odds/eventType/4'']"
    and t: "requested (fst (step samplePlatform (TimerFires 0) ?w))
     = requested (fst ?w) @ [''https://gobook9.com/api/exchange/odds/eventType/4'']"
    and p: "emitted (snd (step samplePlatform (Answer 0 emptyPayload) ?w))
     = (if truthy emptyPayload then emitted (snd ?w) @ [(''sport_update'',
          JObj [(''success'', JBool True), (''sport'', JStr ''cricket''),
          (''competitions'', JArr []), (''matchCount'', JNum 0), (''timestamp'', JNum 1500)])]
        else emitted (snd ?w))"
    by blast+
  from second alive waiting(2) failed eventUrl_cricket [of samplePlatform]
  have b: "requested (fst (step samplePlatform
        (SubscribeEvent (JObj [(''sportName'', JStr ''cricket''), (''eventId'', JStr ''E1'')])) ?w))
     = requested (fst ?w) @ [''https://gobook9.com/api/exchange/odds/d-sma-event/4/E1'']"
    and n: "emitted (snd (step samplePlatform (Answer 1 JNull) ?w))
     = (if truthy JNull then emitted (snd ?w) @ [(''event_update'', failure ''Invalid event data format'' ''cricket'')]
        else emitted (snd ?w))"
    by simp_all
  from a b t p n quiet armed show ?thesis by (simp add: truthy_emptyPayload)
qed

section \<open>The REST endpoints: freshness window\<close>

lemma map_of_tableSet: "map_of (tableSet t k v) = (map_of t)(k \<mapsto> v)"
  by (induction t) (auto simp add: fun_eq_iff)

lemma tableGet_tableSet: "tableGet (tableSet t k v) k' = (if k' = k then v else tableGet t k')"
  by (simp add: tableGet_def map_of_tableSet)





lemma objectPrototype_cases: "objectPrototype k = JUndefined \<or> (\<exists>n. objectPrototype k = JBuiltin n)"
  by (simp add: objectPrototype_def)

lemma getSportTypeId_cases:
  "(\<exists>s. getSportTypeId sportName = JStr s) \<or> (\<exists>n. getSportTypeId sportName = JBuiltin n)"
proof -
  let ?k = "toLowerCase sportName"
  have "tableGet SPORT_TYPE_IDS ?k = objectPrototype ?k \<or> (\<exists>s. tableGet SPORT_TYPE_IDS ?k = JStr s)"
    by (simp add: tableGet_def SPORT_TYPE_IDS_def)
  with objectPrototype_cases [of ?k] show ?thesis
    by (auto simp add: getSportTypeId_def orElse_def)
qed


lemma sportUrl_returns: "\<exists>url. sportUrl env (getSportTypeId sportName) = Returns url"
  using getSportTypeId_cases [of sportName] by (auto simp add: sportUrl_def bindE_def)

lemma eventUrl_platform:
  "eventUrl env (getSportTypeId sportName) (JStr eventId) = eventUrl env' (getSportTypeId sportName) (JStr eventId)"
  using getSportTypeId_cases [of sportName] by (auto simp add: eventUrl_def bindE_def)








lemma eventRouteStart_hit:
  "cacheFresh (eventDataCache srv) (sportName @ ''_'' @ eventId) now 10000 \<Longrightarrow>
   eventRouteStart env now sportName eventId srv
     = (Some \<lparr>status = 200, body = field (tableGet (eventDataCache srv) (sportName @ ''_'' @ eventId)) ''data''\<rparr>,
        srv)"
  by (simp add: eventRouteStart_def)

lemma eventRouteStart_miss:
  "\<not> cacheFresh (eventDataCache srv) (sportName @ ''_'' @ eventId) now 10000 \<Longrightarrow>
   eventUrl env (getSportTypeId sportName) (JStr eventId) = Returns url \<Longrightarrow>
   eventRouteStart env now sportName eventId srv = (None, srv\<lparr>requested := requested srv @ [url]\<rparr>)"
  by (simp add: eventRouteStart_def)

lemma eventRouteFinish_ok:
  "truthy answer \<Longrightarrow> transformEventData env answer sportName = Returns payload \<Longrightarrow>
   eventRouteFinish env now sportName eventId answer srv
     = (\<lparr>status = 200, body = payload\<rparr>,
        srv\<lparr>eventDataCache := tableSet (eventDataCache srv) (sportName @ ''_'' @ eventId)
                                 (cacheEntry payload now)\<rparr>)"
  by (simp add: eventRouteFinish_def)





lemma eventRoute_hit:
  "cacheFresh (eventDataCache srv) (sportName @ ''_'' @ eventId) now 10000 \<Longrightarrow>
   eventRoute env upstream now sportName eventId srv
     = (\<lparr>status = 200, body = field (tableGet (eventDataCache srv) (sportName @ ''_'' @ eventId)) ''data''\<rparr>, srv)"
  by (simp add: eventRoute_def eventRouteStart_hit)

lemma eventRoute_miss_ok:
  assumes "\<not> cacheFresh (eventDataCache srv) (sportName @ ''_'' @ eventId) now 10000"
    and "eventUrl env (getSportTypeId sportName) (JStr eventId) = Returns url"
    and "truthy (upstream url)"
    and "transformEventData env (upstream url) sportName = Returns payload"
  shows "eventRoute env upstream now sportName eventId srv
     = (\<lparr>status = 200, body = payload\<rparr>,
        srv\<lparr>requested := requested srv @ [url],
            eventDataCache := tableSet (eventDataCache srv) (sportName @ ''_'' @ eventId) (cacheEntry payload now)\<rparr>)"
  using assms by (simp add: eventRoute_def eventRouteStart_miss eventRouteFinish_ok)




















section \<open>The buckets of an event payload\<close>

lemma transformMarket_marketRecord: "transformMarket (marketRecord name) = Returns (transformedRecord name)"
  by (simp add: transformMarket_def marketBody_def marketRecord_def transformedRecord_def bindE_def orElse_def)

lemma field_name_transformedRecord [simp]: "field (transformedRecord name) ''name'' = JStr name"
  by (simp add: transformedRecord_def)

lemma truthy_transformedRecord [simp]: "truthy (transformedRecord name)"
  by (simp add: transformedRecord_def)

lemma filterE_Returns:
  "filterE p xs = Returns ys \<Longrightarrow> ys = filter (\<lambda>x. p x = Returns True) xs"
  by (induction xs arbitrary: ys) (auto split: sum.splits)

lemma filterE_member:
  "filterE p xs = Returns ys \<Longrightarrow> x \<in> set ys \<longleftrightarrow> x \<in> set xs \<and> p x = Returns True"
  by (auto dest: filterE_Returns)

lemma findFirst_found: "findFirst p xs = m \<Longrightarrow> m \<noteq> JUndefined \<Longrightarrow> p m \<and> m \<in> set xs"
  by (auto simp add: findFirst_def find_Some_iff split: option.splits)

lemma exact_name_not_included:
  "nameIncludes m ''Over/Under'' \<noteq> Returns True \<and> nameIncludes m ''Set'' \<noteq> Returns True
   \<and> nameIncludes m ''Game'' \<noteq> Returns True"
  if "field m ''name'' = JStr ''Tied Match'' \<or> field m ''name'' = JStr ''Match Odds''"
  using that by (auto simp add: nameIncludes_def)

lemma isOtherMarket_True:
  "isOtherMarket m = Returns True \<Longrightarrow>
   field m ''name'' \<noteq> JStr ''Match Odds'' \<and> field m ''name'' \<noteq> JStr ''Tied Match''
   \<and> nameIncludes m ''Over/Under'' = Returns False \<and> nameIncludes m ''Set'' = Returns False
   \<and> nameIncludes m ''Game'' = Returns False"
  by (auto simp add: isOtherMarket_def bindE_def split: if_splits sum.splits)

text \<open>What the six buckets hold, for the list of transformed markets.\<close>

lemma groupedMarkets_buckets:
  assumes "groupedMarkets markets = Returns g"
  shows "field g ''matchOdds'' = findFirst (\<lambda>m. field m ''name'' = JStr ''Match Odds'') markets"
    and "field g ''tiedMatch'' = findFirst (\<lambda>m. field m ''name'' = JStr ''Tied Match'') markets"
    and "elems (field g ''overUnderMarkets'') = filter (\<lambda>m. nameIncludes m ''Over/Under'' = Returns True) markets"
    and "elems (field g ''setMarkets'') = filter (\<lambda>m. nameIncludes m ''Set'' = Returns True) markets"
    and "elems (field g ''gameMarkets'') = filter (\<lambda>m. nameIncludes m ''Game'' = Returns True) markets"
    and "elems (field g ''otherMarkets'') = filter (\<lambda>m. isOtherMarket m = Returns True) markets"
  using assms
  by (auto simp add: groupedMarkets_def bindE_def split: sum.splits dest: filterE_Returns)

lemma groupedMarkets_matchOdds:
  "groupedMarkets markets = Returns g \<Longrightarrow> m \<noteq> JUndefined \<Longrightarrow> field g ''matchOdds'' = m
   \<Longrightarrow> field m ''name'' = JStr ''Match Odds''"
  using findFirst_found [of "\<lambda>m. field m ''name'' = JStr ''Match Odds''" markets m]
  by (simp add: groupedMarkets_buckets)

lemma groupedMarkets_tiedMatch:
  "groupedMarkets markets = Returns g \<Longrightarrow> m \<noteq> JUndefined \<Longrightarrow> field g ''tiedMatch'' = m
   \<Longrightarrow> field m ''name'' = JStr ''Tied Match''"
  using findFirst_found [of "\<lambda>m. field m ''name'' = JStr ''Tied Match''" markets m]
  by (simp add: groupedMarkets_buckets)

lemma eventBody_grouped:
  assumes "eventBody env data sportName = Returns out"
  shows "\<exists>records transformed. field data ''result'' = JArr records
     \<and> mapE transformMarket records = Returns transformed
     \<and> elems (field out ''markets'') = filter truthy transformed
     \<and> groupedMarkets (filter truthy transformed) = Returns (field out ''groupedMarkets'')"
  using assms
  by (auto simp add: eventBody_def bindE_def Let_def split: jsval.splits sum.splits)

lemma transformEventData_cases:
  assumes "transformEventData env data sportName = Returns out"
  shows "(\<exists>msg. out = failure msg sportName) \<or> eventBody env data sportName = Returns out"
  using assms by (auto simp add: transformEventData_def split: if_splits sum.splits)

lemma bucket_failure [simp]: "bucket (failure msg sportName) name = []"
  by (simp add: bucket_def failure_def)

lemma groupedMarkets_failure [simp]: "field (field (failure msg sportName) ''groupedMarkets'') k = JUndefined"
  by (simp add: failure_def)

text \<open>
  C2, amended. In the result of \<open>transformEventData\<close> the two exact-name buckets and the
  residual bucket are exclusive: a market of \<open>otherMarkets\<close> is in no other bucket; a market
  named exactly \<open>Tied Match\<close> or \<open>Match Odds\<close> is in none of \<open>overUnderMarkets\<close>,
  \<open>setMarkets\<close>, \<open>gameMarkets\<close> and \<open>otherMarkets\<close>; the market of \<open>matchOdds\<close> is named
  \<open>Match Odds\<close> and is not the one of \<open>tiedMatch\<close>, which is named \<open>Tied Match\<close>. The
  three substring buckets are independent filters of the list of markets, with no priority
  between them: in a successful payload each holds, in order, exactly the markets whose name
  contains its substring, so a market whose name contains two of the substrings is in both
  buckets; \<open>otherMarkets\<close> holds the markets that pass the residual test, and \<open>matchOdds\<close>
  and \<open>tiedMatch\<close> are the first markets with the exact names.
\<close>

theorem exact_and_residual_buckets_exclusive:
  assumes "transformEventData env data sportName = Returns out"
  shows "(\<forall>m \<in> set (bucket out ''otherMarkets'').
            m \<notin> set (bucket out ''overUnderMarkets'') \<and> m \<notin> set (bucket out ''setMarkets'')
            \<and> m \<notin> set (bucket out ''gameMarkets'')
            \<and> field (field out ''groupedMarkets'') ''matchOdds'' \<noteq> m
            \<and> field (field out ''groupedMarkets'') ''tiedMatch'' \<noteq> m)
       \<and> (\<forall>m. field m ''name'' = JStr ''Tied Match'' \<or> field m ''name'' = JStr ''Match Odds'' \<longrightarrow>
            m \<notin> set (bucket out ''overUnderMarkets'') \<and> m \<notin> set (bucket out ''setMarkets'')
            \<and> m \<notin> set (bucket out ''gameMarkets'') \<and> m \<notin> set (bucket out ''otherMarkets''))
       \<and> (\<forall>m. m \<noteq> JUndefined \<and> field (field out ''groupedMarkets'') ''matchOdds'' = m \<longrightarrow>
            field m ''name'' = JStr ''Match Odds''
            \<and> field (field out ''groupedMarkets'') ''tiedMatch'' \<noteq> m)
       \<and> (\<forall>m. m \<noteq> JUndefined \<and> field (field out ''groupedMarkets'') ''tiedMatch'' = m \<longrightarrow>
            field m ''name'' = JStr ''Tied Match'')
       \<and> (field out ''success'' = JBool True \<longrightarrow>
            bucket out ''overUnderMarkets''
              = filter (\<lambda>m. nameIncludes m ''Over/Under'' = Returns True) (elems (field out ''markets''))
            \<and> bucket out ''setMarkets''
              = filter (\<lambda>m. nameIncludes m ''Set'' = Returns True) (elems (field out ''markets''))
            \<and> bucket out ''gameMarkets''
              = filter (\<lambda>m. nameIncludes m ''Game'' = Returns True) (elems (field out ''markets''))
            \<and> bucket out ''otherMarkets''
              = filter (\<lambda>m. isOtherMarket m = Returns True) (elems (field out ''markets''))
            \<and> field (field out ''groupedMarkets'') ''matchOdds''
              = findFirst (\<lambda>m. field m ''name'' = JStr ''Match Odds'') (elems (field out ''markets''))
            \<and> field (field out ''groupedMarkets'') ''tiedMatch''
              = findFirst (\<lambda>m. field m ''name'' = JStr ''Tied Match'') (elems (field out ''markets''))
            \<and> (\<forall>m \<in> set (elems (field out ''markets'')). \<forall>name. field m ''name'' = JStr name \<longrightarrow>
                  (m \<in> set (bucket out ''overUnderMarkets'') \<longleftrightarrow> includesStr name ''Over/Under'')
                  \<and> (m \<in> set (bucket out ''setMarkets'') \<longleftrightarrow> includesStr name ''Set'')
                  \<and> (m \<in> set (bucket out ''gameMarkets'') \<longleftrightarrow> includesStr name ''Game'')))"
proof (cases "eventBody env data sportName = Returns out")
  case False
  with transformEventData_cases [OF assms] obtain msg where out: "out = failure msg sportName" by blast
  then have "field out ''success'' \<noteq> JBool True" by (simp add: failure_def)
  with out show ?thesis by auto
next
  case True
  from eventBody_grouped [OF True] obtain markets
    where g: "groupedMarkets markets = Returns (field out ''groupedMarkets'')"
      and t: "\<forall>m \<in> set markets. truthy m"
      and ms: "elems (field out ''markets'') = markets"
    by fastforce
  note b = groupedMarkets_buckets [OF g]
  have other: "m \<notin> set (bucket out ''overUnderMarkets'') \<and> m \<notin> set (bucket out ''setMarkets'')
            \<and> m \<notin> set (bucket out ''gameMarkets'')
            \<and> field (field out ''groupedMarkets'') ''matchOdds'' \<noteq> m
            \<and> field (field out ''groupedMarkets'') ''tiedMatch'' \<noteq> m"
    if "m \<in> set (bucket out ''otherMarkets'')" for m
  proof -
    from that have m: "m \<in> set markets" and o: "isOtherMarket m = Returns True"
      by (simp_all add: bucket_def b)
    from t m have "m \<noteq> JUndefined" by auto
    with isOtherMarket_True [OF o] groupedMarkets_matchOdds [OF g, of m]
      groupedMarkets_tiedMatch [OF g, of m]
    show ?thesis
      by (auto simp add: bucket_def b)
  qed
  have exact: "m \<notin> set (bucket out ''overUnderMarkets'') \<and> m \<notin> set (bucket out ''setMarkets'')
            \<and> m \<notin> set (bucket out ''gameMarkets'') \<and> m \<notin> set (bucket out ''otherMarkets'')"
    if "field m ''name'' = JStr ''Tied Match'' \<or> field m ''name'' = JStr ''Match Odds''" for m
    using exact_name_not_included [OF that] that
    by (auto simp add: bucket_def b dest: isOtherMarket_True)
  have odds: "field m ''name'' = JStr ''Match Odds''
            \<and> field (field out ''groupedMarkets'') ''tiedMatch'' \<noteq> m"
    if "m \<noteq> JUndefined \<and> field (field out ''groupedMarkets'') ''matchOdds'' = m" for m
    using that groupedMarkets_matchOdds [OF g, of m] groupedMarkets_tiedMatch [OF g, of m]
    by auto
  have tied: "field m ''name'' = JStr ''Tied Match''"
    if "m \<noteq> JUndefined \<and> field (field out ''groupedMarkets'') ''tiedMatch'' = m" for m
    using that groupedMarkets_tiedMatch [OF g, of m] by auto
  have filters: "bucket out ''overUnderMarkets''
              = filter (\<lambda>m. nameIncludes m ''Over/Under'' = Returns True) (elems (field out ''markets''))
            \<and> bucket out ''setMarkets''
              = filter (\<lambda>m. nameIncludes m ''Set'' = Returns True) (elems (field out ''markets''))
            \<and> bucket out ''gameMarkets''
              = filter (\<lambda>m. nameIncludes m ''Game'' = Returns True) (elems (field out ''markets''))
            \<and> bucket out ''otherMarkets''
              = filter (\<lambda>m. isOtherMarket m = Returns True) (elems (field out ''markets''))
            \<and> field (field out ''groupedMarkets'') ''matchOdds''
              = findFirst (\<lambda>m. field m ''name'' = JStr ''Match Odds'') (elems (field out ''markets''))
            \<and> field (field out ''groupedMarkets'') ''tiedMatch''
              = findFirst (\<lambda>m. field m ''name'' = JStr ''Tied Match'') (elems (field out ''markets''))"
    by (simp add: bucket_def b ms)
  have named: "(m \<in> set (bucket out ''overUnderMarkets'') \<longleftrightarrow> includesStr name ''Over/Under'')
                  \<and> (m \<in> set (bucket out ''setMarkets'') \<longleftrightarrow> includesStr name ''Set'')
                  \<and> (m \<in> set (bucket out ''gameMarkets'') \<longleftrightarrow> includesStr name ''Game'')"
    if "m \<in> set (elems (field out ''markets''))" and "field m ''name'' = JStr name" for m name
    using that by (simp add: bucket_def b ms nameIncludes_def)
  from other exact odds tied filters named show ?thesis by blast
qed


lemma marketRecord_fields:
  "truthy (marketRecord name)" "field (marketRecord name) ''event'' = JUndefined"
  by (simp_all add: marketRecord_def)

lemma tennisEvent_grouped:
  "field (resultOf (transformEventData env tennisEvent sportName)) ''groupedMarkets''
   = JObj [(''matchOdds'', transformedRecord ''Match Odds''),
           (''tiedMatch'', transformedRecord ''Tied Match''),
           (''overUnderMarkets'', JArr []),
           (''setMarkets'', JArr [transformedRecord ''Set 1 Game 1 Winner'']),
           (''gameMarkets'', JArr [transformedRecord ''Set 1 Game 1 Winner'']),
           (''otherMarkets'', JArr [transformedRecord ''Total Aces''])]"
  by (simp add: transformEventData_def eventBody_def tennisEvent_def transformMarket_marketRecord
      startTimeE_def
      bindE_def groupedMarkets_def nameIncludes_def isOtherMarket_def findFirst_def resultOf_def
      firstOf_def orElse_def marketRecord_fields Let_def)

lemma tennisEvent_markets:
  "field (resultOf (transformEventData env tennisEvent sportName)) ''success'' = JBool True"
  "elems (field (resultOf (transformEventData env tennisEvent sportName)) ''markets'')
   = [transformedRecord ''Match Odds'', transformedRecord ''Tied Match'',
      transformedRecord ''Set 1 Game 1 Winner'', transformedRecord ''Total Aces'']"
  by (simp_all add: transformEventData_def eventBody_def tennisEvent_def transformMarket_marketRecord
      startTimeE_def bindE_def groupedMarkets_def nameIncludes_def isOtherMarket_def findFirst_def
      resultOf_def firstOf_def orElse_def marketRecord_fields Let_def)

text \<open>
  C2. The claim: the six buckets are mutually exclusive, every market in at most one of
  them. The three substring buckets are independent filters over the same list: a market
  whose name contains both \<open>Set\<close> and \<open>Game\<close> is in \<open>setMarkets\<close> and in \<open>gameMarkets\<close>.
\<close>

theorem set_and_game_buckets_overlap:
  "bucket (resultOf (transformEventData samplePlatform tennisEvent ''tennis'')) ''setMarkets''
     = [transformedRecord ''Set 1 Game 1 Winner'']
   \<and> bucket (resultOf (transformEventData samplePlatform tennisEvent ''tennis'')) ''gameMarkets''
     = [transformedRecord ''Set 1 Game 1 Winner'']"
  by (simp add: bucket_def tennisEvent_grouped)

theorem exact_and_residual_buckets_exclusive_witness:
  "bucket (resultOf (transformEventData samplePlatform tennisEvent ''tennis'')) ''otherMarkets''
     = [transformedRecord ''Total Aces'']
   \<and> transformedRecord ''Total Aces''
       \<notin> set (bucket (resultOf (transformEventData samplePlatform tennisEvent ''tennis'')) ''setMarkets'')
   \<and> transformedRecord ''Total Aces''
       \<notin> set (bucket (resultOf (transformEventData samplePlatform tennisEvent ''tennis'')) ''gameMarkets'')
   \<and> transformedRecord ''Tied Match''
       \<notin> set (bucket (resultOf (transformEventData samplePlatform tennisEvent ''tennis'')) ''setMarkets'')
   \<and> transformedRecord ''Tied Match''
       \<notin> set (bucket (resultOf (transformEventData samplePlatform tennisEvent ''tennis'')) ''otherMarkets'')
   \<and> field (field (resultOf (transformEventData samplePlatform tennisEvent ''tennis'')) ''groupedMarkets'')
         ''matchOdds'' = transformedRecord ''Match Odds''
   \<and> field (field (resultOf (transformEventData samplePlatform tennisEvent ''tennis'')) ''groupedMarkets'')
         ''tiedMatch'' \<noteq> transformedRecord ''Match Odds''
   \<and> transformedRecord ''Set 1 Game 1 Winner''
       \<in> set (bucket (resultOf (transformEventData samplePlatform tennisEvent ''tennis'')) ''setMarkets'')
   \<and> transformedRecord ''Set 1 Game 1 Winner''
       \<in> set (bucket (resultOf (transformEventData samplePlatform tennisEvent ''tennis'')) ''gameMarkets'')
   \<and> transformedRecord ''Set 1 Game 1 Winner''
       \<notin> set (bucket (resultOf (transformEventData samplePlatform tennisEvent ''tennis'')) ''overUnderMarkets'')"
proof -
  let ?out = "resultOf (transformEventData samplePlatform tennisEvent ''tennis'')"
  have r: "transformEventData samplePlatform tennisEvent ''tennis'' = Returns ?out"
    using transformEventData_returns [of samplePlatform tennisEvent "''tennis''"]
    by (auto simp add: resultOf_def)
  have other: "bucket ?out ''otherMarkets'' = [transformedRecord ''Total Aces'']"
    by (simp add: bucket_def tennisEvent_grouped)
  have odds: "field (field ?out ''groupedMarkets'') ''matchOdds'' = transformedRecord ''Match Odds''"
    by (simp add: tennisEvent_grouped)
  have defined: "transformedRecord ''Match Odds'' \<noteq> JUndefined"
    by (simp add: transformedRecord_def)
  note all = exact_and_residual_buckets_exclusive [OF r]
  from all other odds defined
  have exclusive: "transformedRecord ''Total Aces'' \<notin> set (bucket ?out ''setMarkets'')
     \<and> transformedRecord ''Total Aces'' \<notin> set (bucket ?out ''gameMarkets'')
     \<and> transformedRecord ''Tied Match'' \<notin> set (bucket ?out ''setMarkets'')
     \<and> transformedRecord ''Tied Match'' \<notin> set (bucket ?out ''otherMarkets'')
     \<and> field (field ?out ''groupedMarkets'') ''tiedMatch'' \<noteq> transformedRecord ''Match Odds''"
    by (metis field_name_transformedRecord list.set_intros(1))
  have listed: "transformedRecord ''Set 1 Game 1 Winner'' \<in> set (elems (field ?out ''markets''))"
    by (simp add: tennisEvent_markets)
  have contains: "includesStr ''Set 1 Game 1 Winner'' ''Set''" "includesStr ''Set 1 Game 1 Winner'' ''Game''"
    "\<not> includesStr ''Set 1 Game 1 Winner'' ''Over/Under''"
    by simp_all
  from all tennisEvent_markets(1) [of samplePlatform "''tennis''"]
  have "\<forall>m \<in> set (elems (field ?out ''markets'')). \<forall>name. field m ''name'' = JStr name \<longrightarrow>
          (m \<in> set (bucket ?out ''overUnderMarkets'') \<longleftrightarrow> includesStr name ''Over/Under'')
          \<and> (m \<in> set (bucket ?out ''setMarkets'') \<longleftrightarrow> includesStr name ''Set'')
          \<and> (m \<in> set (bucket ?out ''gameMarkets'') \<longleftrightarrow> includesStr name ''Game'')"
    by blast
  from this [rule_format, OF listed field_name_transformedRecord] contains
  have both: "transformedRecord ''Set 1 Game 1 Winner'' \<in> set (bucket ?out ''setMarkets'')
     \<and> transformedRecord ''Set 1 Game 1 Winner'' \<in> set (bucket ?out ''gameMarkets'')
     \<and> transformedRecord ''Set 1 Game 1 Winner'' \<notin> set (bucket ?out ''overUnderMarkets'')"
    by blast
  from other odds exclusive both show ?thesis by blast
qed


section \<open>The order of the competitions\<close>



lemma insertE_Cons:
  assumes "insertE env a (b # bs) = Returns cs"
  obtains order where "compareNames env a b = Returns order" "order < 0" "cs = a # b # bs"
  | order rest where "compareNames env a b = Returns order" "\<not> order < 0"
      "insertE env a bs = Returns rest" "cs = b # rest"
proof (cases "compareNames env a b")
  case (Inl e)
  with assms show ?thesis by simp
next
  case (Inr order)
  show ?thesis
  proof (cases "order < 0")
    case True
    with Inr assms that(1) show ?thesis by simp
  next
    case False
    show ?thesis
    proof (cases "insertE env a bs")
      case (Inl e)
      with Inr False assms show ?thesis by simp
    next
      case (Inr rest)
      with \<open>compareNames env a b = Returns order\<close> False assms that(2) show ?thesis by simp
    qed
  qed
qed

lemma set_insertE: "insertE env a bs = Returns cs \<Longrightarrow> set cs = insert a (set bs)"
proof (induction bs arbitrary: cs)
  case Nil
  then show ?case by auto
next
  case (Cons b bs)
  from Cons.prems show ?case
  proof (cases rule: insertE_Cons)
    case (1 order)
    then show ?thesis by auto
  next
    case (2 order rest)
    with Cons.IH [of rest] show ?thesis by auto
  qed
qed


lemma sortFromE_Cons:
  assumes "sortFromE env placed (a # xs) = Returns ys"
  obtains placed' where "insertE env a placed = Returns placed'" "sortFromE env placed' xs = Returns ys"
  using assms by (cases "insertE env a placed") simp_all



lemma sportBody_competitions:
  assumes "sportBody env data sportName = Returns out"
  shows "\<exists>st arr. groupMarkets env sportName (field data ''result'') = Returns st
     \<and> mapE (competitionEntry env (matches st)) (ownValues (competitions st)) = Returns arr
     \<and> sortByName env arr = Returns (elems (field out ''competitions''))
     \<and> field out ''matchCount'' = JNum (of_nat (length (matches st)))"
proof -
  from assms obtain st where st: "groupMarkets env sportName (field data ''result'') = Returns st"
    by (cases "groupMarkets env sportName (field data ''result'')")
      (simp_all add: sportBody_def bindE_def)
  from assms st obtain arr
    where arr: "mapE (competitionEntry env (matches st)) (ownValues (competitions st)) = Returns arr"
    by (cases "mapE (competitionEntry env (matches st)) (ownValues (competitions st))")
      (simp_all add: sportBody_def bindE_def)
  from assms st arr obtain sortedArray where s: "sortByName env arr = Returns sortedArray"
    by (cases "sortByName env arr") (simp_all add: sportBody_def bindE_def)
  from assms st arr s have out: "out = JObj
       [(''success'', JBool True),
        (''sport'', JStr sportName),
        (''competitions'', JArr sortedArray),
        (''matchCount'', JNum (of_nat (length (matches st)))),
        (''timestamp'', JNum (of_int (clock env)))]"
    by (simp add: sportBody_def bindE_def)
  have "elems (field out ''competitions'') = sortedArray"
    and "field out ''matchCount'' = JNum (of_nat (length (matches st)))"
    by (simp_all add: out)
  with st arr s show ?thesis by blast
qed

lemma transformSportData_cases:
  assumes "transformSportData env data sportName = Returns out"
  shows "(\<exists>msg. out = failure msg sportName) \<or> sportBody env data sportName = Returns out"
  using assms by (auto simp add: transformSportData_def split: if_splits sum.splits)


lemma transformMarket_named:
  "map_of kvs ''runners'' = Some (JArr []) \<Longrightarrow> map_of kvs ''name'' = Some (JStr name)
   \<Longrightarrow> map_of kvs ''id'' = None \<Longrightarrow> map_of kvs ''status'' = None \<Longrightarrow> map_of kvs ''inPlay'' = None
   \<Longrightarrow> map_of kvs ''matched'' = None \<Longrightarrow> map_of kvs ''numWinners'' = None
   \<Longrightarrow> map_of kvs ''start'' = None \<Longrightarrow> map_of kvs ''mtype'' = None
   \<Longrightarrow> map_of kvs ''eventTypeId'' = None
   \<Longrightarrow> transformMarket (JObj kvs) = Returns (transformedRecord name)"
  by (simp add: transformMarket_def marketBody_def transformedRecord_def bindE_def orElse_def)

lemma transformMarket_no_runners:
  "map_of kvs ''runners'' = None \<Longrightarrow> transformMarket (JObj kvs) = Returns JNull"
  by (simp add: transformMarket_def)

lemma groupMarkets_cricket:
  "groupMarkets samplePlatform ''cricket'' (field cricketPayload ''result'')
   = Returns \<lparr>matches =
        [(''E1'', matchObject ''E1'' (JStr ''C2'') (JStr ''Beta League'') [transformedRecord ''Match Odds'']),
         (''E2'', matchObject ''E2'' JUndefined JUndefined
                    [transformedRecord ''Match Odds'', transformedRecord ''Tied Match'']),
         (''E3'', matchObject ''E3'' (JStr ''C1'') (JStr ''alpha Cup'') [transformedRecord ''Match Odds''])],
      competitions =
        [(''C2'', JObj [(''id'', JStr ''C2''), (''name'', JStr ''Beta League''), (''matches'', JArr [JStr ''E1''])]),
         (''C1'', JObj [(''id'', JStr ''C1''), (''name'', JStr ''alpha Cup''), (''matches'', JArr [JStr ''E3''])])]\<rparr>"
  by (simp add: cricketPayload_def groupMarkets_def processMarket_def storeCompetition_def
      createMatch_def addToCompetition_def addMarket_def pushTo_def bindE_def optField_def
      startTimeE_def
      tableGet_def objectPrototype_def orElse_def Let_def matchObject_def
      transformMarket_named transformMarket_no_runners)



lemma compareFolded_alpha_beta: "compareFolded ''alpha Cup'' ''Beta League'' = - 1"
  by (simp add: compareFolded_def codeUnits_def toLowerCase_def toLowerCaseChar_def)

lemma samplePlatform_fields:
  "localeCompare samplePlatform = compareFolded" "clock samplePlatform = 1500"
  by (simp_all add: samplePlatform_def)

lemma transformSportData_cricket:
  "transformSportData samplePlatform cricketPayload ''cricket''
   = Returns (JObj
       [(''success'', JBool True),
        (''sport'', JStr ''cricket''),
        (''competitions'', JArr
           [JObj [(''id'', JStr ''C1''), (''name'', JStr ''alpha Cup''),
                  (''matches'', JArr [matchObject ''E3'' (JStr ''C1'') (JStr ''alpha Cup'')
                                        [transformedRecord ''Match Odds'']])],
            JObj [(''id'', JStr ''C2''), (''name'', JStr ''Beta League''),
                  (''matches'', JArr [matchObject ''E1'' (JStr ''C2'') (JStr ''Beta League'')
                                        [transformedRecord ''Match Odds'']])]]),
        (''matchCount'', JNum 3),
        (''timestamp'', JNum 1500)])"
proof -
  have guard: "truthy cricketPayload" "truthy (field cricketPayload ''result'')"
    by (simp_all add: cricketPayload_def)
  have "sportBody samplePlatform cricketPayload ''cricket'' = Returns (JObj
       [(''success'', JBool True),
        (''sport'', JStr ''cricket''),
        (''competitions'', JArr
           [JObj [(''id'', JStr ''C1''), (''name'', JStr ''alpha Cup''),
                  (''matches'', JArr [matchObject ''E3'' (JStr ''C1'') (JStr ''alpha Cup'')
                                        [transformedRecord ''Match Odds'']])],
            JObj [(''id'', JStr ''C2''), (''name'', JStr ''Beta League''),
                  (''matches'', JArr [matchObject ''E1'' (JStr ''C2'') (JStr ''Beta League'')
                                        [transformedRecord ''Match Odds'']])]]),
        (''matchCount'', JNum 3),
        (''timestamp'', JNum 1500)])"
    by (simp add: sportBody_def groupMarkets_cricket bindE_def ownValues_def isArrayIndex_def
        digitOf_def competitionEntry_def tableGet_def sortByName_def compareNames_def
        compareFolded_alpha_beta samplePlatform_fields)
  with guard show ?thesis by (simp add: transformSportData_def)
qed




section \<open>The grouping loop\<close>

subsection \<open>Tables\<close>

lemma tableSet_absent: "map_of t k = None \<Longrightarrow> tableSet t k v = t @ [(k, v)]"
  by (induction t) (auto split: if_splits)

lemma keys_tableSet_present: "k \<in> fst ` set t \<Longrightarrow> map fst (tableSet t k v) = map fst t"
  by (induction t k v rule: tableSet.induct) force+

lemma set_tableSet:
  "distinct (map fst t) \<Longrightarrow> set (tableSet t k v) = insert (k, v) {p \<in> set t. fst p \<noteq> k}"
proof (induction t k v rule: tableSet.induct)
  case (1 k v)
  then show ?case by simp
next
  case (2 k' v' t k v)
  show ?case
  proof (cases "k' = k")
    case True
    with "2.prems" show ?thesis by (auto simp add: rev_image_eqI)
  next
    case False
    with 2 show ?thesis by auto
  qed
qed

lemma tableGet_own: "map_of t k = Some v \<Longrightarrow> tableGet t k = v"
  by (simp add: tableGet_def)

lemma tableGet_absent: "map_of t k = None \<Longrightarrow> tableGet t k = objectPrototype k"
  by (simp add: tableGet_def)

lemma truthy_objectPrototype: "truthy (objectPrototype k) \<longleftrightarrow> objectPrototype k \<noteq> JUndefined"
  by (simp add: objectPrototype_def)

lemma pushTo_Returns:
  assumes "pushTo obj k v = Returns obj'"
  obtains kvs xs where "obj = JObj kvs" "map_of kvs k = Some (JArr xs)"
    "obj' = JObj (tableSet kvs k (JArr (xs @ [v])))"
proof (cases obj)
  case (JObj kvs)
  show ?thesis
  proof (cases "map_of kvs k")
    case None
    with JObj assms show ?thesis by (simp add: pushTo_def)
  next
    case (Some a)
    with JObj assms obtain xs where "a = JArr xs"
      by (cases a) (simp_all add: pushTo_def)
    with JObj Some assms that show ?thesis by (simp add: pushTo_def)
  qed
qed (use assms in \<open>simp_all add: pushTo_def split: if_splits\<close>)

subsection \<open>The steps of the callback\<close>

lemma processMarket_cases:
  assumes "processMarket env sportName r st = Returns st'"
  obtains (dropped) "\<not> nullish r" "\<not> truthy (field r ''event'') \<or> \<not> truthy (eventIdOf r)" "st' = st"
  | (grouped) st1 st2 where "\<not> nullish r" "truthy (field r ''event'')" "truthy (eventIdOf r)"
      "storeCompetition env (competitionIdOf r) (competitionNameOf r) st = Returns st1"
      "createMatch env sportName r (eventIdOf r) (competitionIdOf r) (competitionNameOf r) st1 = Returns st2"
      "addMarket env r (eventIdOf r) st2 = Returns st'"
proof (cases "nullish r \<or> \<not> truthy (field r ''event'') \<or> \<not> truthy (eventIdOf r)")
  case True
  with assms dropped show ?thesis
    by (auto simp add: processMarket_def eventIdOf_def split: if_splits)
next
  case False
  let ?cid = "competitionIdOf r" and ?cname = "competitionNameOf r" and ?eid = "eventIdOf r"
  from False assms have run: "bindE (storeCompetition env ?cid ?cname st) (\<lambda>st1.
           bindE (createMatch env sportName r ?eid ?cid ?cname st1) (\<lambda>st2.
           addMarket env r ?eid st2)) = Returns st'"
    by (simp add: processMarket_def eventIdOf_def competitionIdOf_def competitionNameOf_def Let_def)
  then obtain st1 where s1: "storeCompetition env ?cid ?cname st = Returns st1"
    by (cases "storeCompetition env ?cid ?cname st") (simp_all add: bindE_def)
  with run obtain st2 where s2: "createMatch env sportName r ?eid ?cid ?cname st1 = Returns st2"
    by (cases "createMatch env sportName r ?eid ?cid ?cname st1") (simp_all add: bindE_def)
  with run s1 have "addMarket env r ?eid st2 = Returns st'" by (simp add: bindE_def)
  with False s1 s2 grouped show ?thesis by blast
qed


lemma storeCompetition_cases:
  assumes "storeCompetition env cid cname st = Returns st'"
  obtains (skipped) "\<not> (truthy cid \<and> truthy cname)" "st' = st"
  | (known) key where "truthy cid" "truthy cname" "toStringE env cid = Returns key"
      "truthy (tableGet (competitions st) key)" "st' = st"
  | (registered) key where "truthy cid" "truthy cname" "toStringE env cid = Returns key"
      "\<not> truthy (tableGet (competitions st) key)"
      "st' = st\<lparr>competitions := tableSet (competitions st) key
          (JObj [(''id'', cid), (''name'', cname), (''matches'', JArr [])])\<rparr>"
proof (cases "truthy cid \<and> truthy cname")
  case False
  with assms have "st' = st" by (simp add: storeCompetition_def)
  with False show ?thesis by (rule skipped)
next
  case True
  then have t: "truthy cid" "truthy cname" by simp_all
  with assms obtain key where key: "toStringE env cid = Returns key"
    by (cases "toStringE env cid") (simp_all add: storeCompetition_def bindE_def)
  show ?thesis
  proof (cases "truthy (tableGet (competitions st) key)")
    case True
    with t key assms have "st' = st" by (simp add: storeCompetition_def bindE_def)
    with t key True show ?thesis by (rule known)
  next
    case False
    with t key assms have "st' = st\<lparr>competitions := tableSet (competitions st) key
          (JObj [(''id'', cid), (''name'', cname), (''matches'', JArr [])])\<rparr>"
      by (simp add: storeCompetition_def bindE_def)
    with t key False show ?thesis by (rule registered)
  qed
qed

lemma addToCompetition_cases:
  assumes "addToCompetition env cid eid st = Returns st'"
  obtains (none) "\<not> truthy cid" "st' = st"
  | (unknown) key where "truthy cid" "toStringE env cid = Returns key"
      "\<not> truthy (tableGet (competitions st) key)" "st' = st"
  | (pushed) key competition where "truthy cid" "toStringE env cid = Returns key"
      "truthy (tableGet (competitions st) key)"
      "pushTo (tableGet (competitions st) key) ''matches'' eid = Returns competition"
      "st' = st\<lparr>competitions := tableSet (competitions st) key competition\<rparr>"
proof (cases "truthy cid")
  case False
  with assms have "st' = st" by (simp add: addToCompetition_def)
  with False show ?thesis by (rule none)
next
  case True
  with assms obtain key where key: "toStringE env cid = Returns key"
    by (cases "toStringE env cid") (simp_all add: addToCompetition_def bindE_def)
  show ?thesis
  proof (cases "truthy (tableGet (competitions st) key)")
    case False
    with True key assms have "st' = st" by (simp add: addToCompetition_def bindE_def)
    with True key False show ?thesis by (rule unknown)
  next
    case present: True
    with True key assms obtain competition
      where p: "pushTo (tableGet (competitions st) key) ''matches'' eid = Returns competition"
      by (cases "pushTo (tableGet (competitions st) key) ''matches'' eid")
        (simp_all add: addToCompetition_def bindE_def)
    with True key present assms
    have "st' = st\<lparr>competitions := tableSet (competitions st) key competition\<rparr>"
      by (simp add: addToCompetition_def bindE_def)
    with True key present p show ?thesis by (rule pushed)
  qed
qed

lemma createMatch_cases:
  assumes "createMatch env sportName r (eventIdOf r) (competitionIdOf r) (competitionNameOf r) st
           = Returns st'"
  obtains (existing) key where "toStringE env (eventIdOf r) = Returns key"
      "truthy (tableGet (matches st) key)" "st' = st"
  | (created) key startTime where "toStringE env (eventIdOf r) = Returns key"
      "\<not> truthy (tableGet (matches st) key)"
      "addToCompetition env (competitionIdOf r) (eventIdOf r)
         (st\<lparr>matches := tableSet (matches st) key (matchOf env sportName r [])\<rparr>) = Returns st'"
      "startTimeE env (field r ''event'') (field r ''start'') = Returns startTime"
proof -
  from assms obtain key where key: "toStringE env (eventIdOf r) = Returns key"
    by (cases "toStringE env (eventIdOf r)") (simp_all add: createMatch_def bindE_def)
  show ?thesis
  proof (cases "truthy (tableGet (matches st) key)")
    case True
    with key assms have "st' = st" by (simp add: createMatch_def bindE_def)
    with key True show ?thesis by (rule existing)
  next
    case False
    with key assms obtain startTime
      where t: "startTimeE env (field r ''event'') (field r ''start'') = Returns startTime"
      by (cases "startTimeE env (field r ''event'') (field r ''start'')")
        (simp_all add: createMatch_def bindE_def)
    with False key assms have "addToCompetition env (competitionIdOf r) (eventIdOf r)
         (st\<lparr>matches := tableSet (matches st) key (matchOf env sportName r [])\<rparr>) = Returns st'"
      by (simp add: createMatch_def bindE_def matchOf_def eventIdOf_def resultOf_def)
    with key False show ?thesis using t by (rule created)
  qed
qed

lemma addMarket_cases:
  assumes "addMarket env r eid st = Returns st'"
  obtains (unusable) "\<not> truthy (resultOf (transformMarket r))" "st' = st"
  | (added) key m where "truthy (resultOf (transformMarket r))" "toStringE env eid = Returns key"
      "pushTo (tableGet (matches st) key) ''markets'' (resultOf (transformMarket r)) = Returns m"
      "st' = st\<lparr>matches := tableSet (matches st) key m\<rparr>"
proof -
  obtain tm where tm: "transformMarket r = Returns tm"
    using transformMarket_returns by blast
  then have r: "resultOf (transformMarket r) = tm" by (simp add: resultOf_def)
  show ?thesis
  proof (cases "truthy tm")
    case False
    with tm assms have "st' = st" by (simp add: addMarket_def bindE_def)
    with False r unusable show ?thesis by simp
  next
    case True
    with tm assms obtain key where key: "toStringE env eid = Returns key"
      by (cases "toStringE env eid") (simp_all add: addMarket_def bindE_def)
    with True tm assms obtain m where m: "pushTo (tableGet (matches st) key) ''markets'' tm = Returns m"
      by (cases "pushTo (tableGet (matches st) key) ''markets'' tm")
        (simp_all add: addMarket_def bindE_def)
    with True tm key assms have "st' = st\<lparr>matches := tableSet (matches st) key m\<rparr>"
      by (simp add: addMarket_def bindE_def)
    with True key m r added show ?thesis by simp
  qed
qed

subsection \<open>Records seen so far\<close>

lemma find_snoc:
  "find P (xs @ [y]) = (case find P xs of Some x \<Rightarrow> Some x | None \<Rightarrow> if P y then Some y else None)"
  by (induction xs) simp_all

lemma firstRecord_snoc:
  "firstRecord env k (pre @ [r])
   = (case firstRecord env k pre of
        Some x \<Rightarrow> Some x
      | None \<Rightarrow> if eventKey env r = Some k then Some r else None)"
  by (simp add: firstRecord_def find_snoc)

lemma marketsOf_snoc:
  "marketsOf env k (pre @ [r])
   = marketsOf env k pre
     @ (if eventKey env r = Some k \<and> truthy (resultOf (transformMarket r))
        then [resultOf (transformMarket r)] else [])"
  by (simp add: marketsOf_def)

lemma firstRecord_None_markets: "firstRecord env k pre = None \<Longrightarrow> marketsOf env k pre = []"
  by (simp add: firstRecord_def marketsOf_def find_None_iff filter_empty_conv)


subsection \<open>The table of matches\<close>

lemma firstRecord_Some_key: "firstRecord env k pre = Some r \<Longrightarrow> eventKey env r = Some k"
  by (auto simp add: firstRecord_def find_Some_iff)

lemma firstRecord_Some_member: "firstRecord env k pre = Some r \<Longrightarrow> r \<in> set pre"
  by (auto simp add: firstRecord_def find_Some_iff)

lemma eventKey_Some:
  "eventKey env r = Some k \<longleftrightarrow>
     \<not> nullish r \<and> truthy (field r ''event'') \<and> truthy (eventIdOf r)
     \<and> toStringE env (eventIdOf r) = Returns k \<and> \<not> truthy (objectPrototype k)"
  by (auto simp add: eventKey_def split: sum.splits)

lemma truthy_matchOf [simp]: "truthy (matchOf env sportName r ms)"
  by (simp add: matchOf_def)

lemma pushTo_matchOf:
  "pushTo (matchOf env sportName r xs) ''markets'' tm = Returns (matchOf env sportName r (xs @ [tm]))"
  by (simp add: pushTo_def matchOf_def)

lemma pushTo_objectPrototype: "pushTo (objectPrototype k) name v \<noteq> Returns obj"
  by (simp add: pushTo_def objectPrototype_def)

lemma matchesInv_lookup:
  assumes "matchesInv env sportName pre ms"
  shows "truthy (tableGet ms k) \<longleftrightarrow> firstRecord env k pre \<noteq> None \<or> truthy (objectPrototype k)"
proof (cases "firstRecord env k pre")
  case None
  with assms have "map_of ms k = None" by (simp add: matchesInv_def)
  with None show ?thesis by (simp add: tableGet_absent)
next
  case (Some r)
  with assms have "map_of ms k = Some (matchOf env sportName r (marketsOf env k pre))"
    by (simp add: matchesInv_def)
  with Some show ?thesis by (simp add: tableGet_own)
qed

lemma matchesInv_unchanged:
  assumes "matchesInv env sportName pre ms"
    and "\<And>k. eventKey env r = Some k \<Longrightarrow>
           firstRecord env k pre \<noteq> None \<and> \<not> truthy (resultOf (transformMarket r))"
  shows "matchesInv env sportName (pre @ [r]) ms"
  unfolding matchesInv_def
proof (intro conjI allI)
  show "distinct (map fst ms)" using assms(1) by (simp add: matchesInv_def)
next
  fix k
  have "firstRecord env k (pre @ [r]) = firstRecord env k pre"
    using assms(2) [of k] by (auto simp add: firstRecord_snoc split: option.splits)
  moreover have "firstRecord env k pre \<noteq> None \<Longrightarrow> marketsOf env k (pre @ [r]) = marketsOf env k pre"
    using assms(2) [of k] by (auto simp add: marketsOf_snoc)
  ultimately show "map_of ms k
     = map_option (\<lambda>r'. matchOf env sportName r' (marketsOf env k (pre @ [r])))
         (firstRecord env k (pre @ [r]))"
    using assms(1) by (cases "firstRecord env k pre") (simp_all add: matchesInv_def)
qed


lemma distinct_tableSet: "distinct (map fst t) \<Longrightarrow> distinct (map fst (tableSet t k v))"
proof (cases "k \<in> fst ` set t")
  case True
  assume "distinct (map fst t)"
  with True show ?thesis by (simp add: keys_tableSet_present)
next
  case False
  assume d: "distinct (map fst t)"
  from False have "map_of t k = None" by (simp add: map_of_eq_None_iff)
  with d False show ?thesis by (simp add: tableSet_absent)
qed

lemma tableSet_twice: "tableSet (tableSet t k a) k b = tableSet t k b"
  by (induction t k a rule: tableSet.induct) simp_all

lemma matchesInv_updated:
  assumes "matchesInv env sportName pre ms"
    and "eventKey env r = Some key"
    and "firstRecord env key (pre @ [r]) = Some first"
  shows "matchesInv env sportName (pre @ [r])
           (tableSet ms key (matchOf env sportName first (marketsOf env key (pre @ [r]))))"
  unfolding matchesInv_def
proof (intro conjI allI)
  show "distinct (map fst (tableSet ms key (matchOf env sportName first (marketsOf env key (pre @ [r])))))"
    using assms(1) by (simp add: matchesInv_def distinct_tableSet)
next
  fix k
  show "map_of (tableSet ms key (matchOf env sportName first (marketsOf env key (pre @ [r])))) k
     = map_option (\<lambda>r'. matchOf env sportName r' (marketsOf env k (pre @ [r])))
         (firstRecord env k (pre @ [r]))"
  proof (cases "k = key")
    case True
    with assms(3) show ?thesis by (simp add: map_of_tableSet)
  next
    case False
    with assms(2) have "firstRecord env k (pre @ [r]) = firstRecord env k pre"
      and "marketsOf env k (pre @ [r]) = marketsOf env k pre"
      by (auto simp add: firstRecord_snoc marketsOf_snoc split: option.splits)
    with False assms(1) show ?thesis by (simp add: map_of_tableSet matchesInv_def)
  qed
qed

text \<open>The result of one callback on the table of matches, described by the records seen.\<close>

lemma processMarket_matches:
  assumes "processMarket env sportName r st = Returns st'"
    and "matchesInv env sportName pre (matches st)"
  shows "matchesInv env sportName (pre @ [r]) (matches st')"
  using assms(1)
proof (cases rule: processMarket_cases)
  case dropped
  then have "eventKey env r = None" by (auto simp add: eventKey_def)
  with matchesInv_unchanged [OF assms(2), of r] dropped(3) show ?thesis by simp
next
  case (grouped st1 st2)
  let ?tm = "resultOf (transformMarket r)"
  from grouped(4) have m1: "matches st1 = matches st"
    by (cases rule: storeCompetition_cases) simp_all
  from grouped(5) show ?thesis
  proof (cases rule: createMatch_cases)
    case (existing key)
    then have m2: "matches st2 = matches st" using m1 by simp
    from existing(2) m1 matchesInv_lookup [OF assms(2), of key]
    have known: "firstRecord env key pre \<noteq> None \<or> truthy (objectPrototype key)" by simp
    from grouped(6) show ?thesis
    proof (cases rule: addMarket_cases)
      case unusable
      have "firstRecord env k pre \<noteq> None \<and> \<not> truthy ?tm" if "eventKey env r = Some k" for k
        using that existing(1) known unusable(1) by (auto simp add: eventKey_Some)
      with matchesInv_unchanged [OF assms(2), of r] unusable(2) m2 show ?thesis by simp
    next
      case (added key' m)
      with existing(1) have same: "key' = key" by simp
      show ?thesis
      proof (cases "firstRecord env key pre")
        case None
        with assms(2) have "map_of (matches st) key = None" by (simp add: matchesInv_def)
        with added(3) same m2 show ?thesis
          by (simp add: tableGet_absent pushTo_objectPrototype)
      next
        case (Some first)
        then have proto: "\<not> truthy (objectPrototype key)"
          using firstRecord_Some_key [OF Some] by (simp add: eventKey_Some)
        with grouped(1-3) existing(1) have k: "eventKey env r = Some key"
          by (simp add: eventKey_Some)
        from Some assms(2)
        have "map_of (matches st) key = Some (matchOf env sportName first (marketsOf env key pre))"
          by (simp add: matchesInv_def)
        with added(3) same m2
        have m: "m = matchOf env sportName first (marketsOf env key pre @ [?tm])"
          by (simp add: tableGet_own pushTo_matchOf)
        have "firstRecord env key (pre @ [r]) = Some first"
          using Some by (simp add: firstRecord_snoc)
        from matchesInv_updated [OF assms(2) k this] added(1,4) k m m2 same show ?thesis
          by (simp add: marketsOf_snoc)
      qed
    qed
  next
    case (created key)
    from created(2) m1 matchesInv_lookup [OF assms(2), of key]
    have fresh: "firstRecord env key pre = None" and proto: "\<not> truthy (objectPrototype key)"
      by simp_all
    with grouped(1-3) created(1) have k: "eventKey env r = Some key"
      by (simp add: eventKey_Some)
    from created(3) have m2: "matches st2 = tableSet (matches st) key (matchOf env sportName r [])"
      using m1 by (cases rule: addToCompetition_cases) simp_all
    have first: "firstRecord env key (pre @ [r]) = Some r"
      using fresh k by (simp add: firstRecord_snoc)
    note upd = matchesInv_updated [OF assms(2) k first]
    from grouped(6) show ?thesis
    proof (cases rule: addMarket_cases)
      case unusable
      with upd m2 fresh k show ?thesis
        by (simp add: marketsOf_snoc firstRecord_None_markets)
    next
      case (added key' m)
      with created(1) have same: "key' = key" by simp
      from added(3) same m2 have "m = matchOf env sportName r [?tm]"
        by (simp add: tableGet_tableSet pushTo_matchOf)
      with upd added(1,4) m2 same fresh k show ?thesis
        by (simp add: marketsOf_snoc firstRecord_None_markets tableSet_twice)
    qed
  qed
qed

lemma forEachE_matches:
  assumes "forEachE (processMarket env sportName) rs st = Returns st'"
    and "matchesInv env sportName pre (matches st)"
  shows "matchesInv env sportName (pre @ rs) (matches st')"
  using assms
proof (induction rs arbitrary: st pre)
  case Nil
  then show ?case by simp
next
  case (Cons r rs)
  from Cons.prems(1) obtain st1 where one: "processMarket env sportName r st = Returns st1"
    and rest: "forEachE (processMarket env sportName) rs st1 = Returns st'"
    by (cases "processMarket env sportName r st") simp_all
  from Cons.IH [OF rest processMarket_matches [OF one Cons.prems(2)]] show ?case by simp
qed

lemma groupMarkets_records:
  assumes "groupMarkets env sportName result = Returns st"
  obtains records where "result = JArr records"
    "forEachE (processMarket env sportName) records \<lparr>matches = [], competitions = []\<rparr> = Returns st"
  using assms by (cases result) (simp_all add: groupMarkets_def)

lemma groupMarkets_matches:
  assumes "groupMarkets env sportName result = Returns st"
  shows "matchesInv env sportName (elems result) (matches st)"
proof -
  from assms obtain records where r: "result = JArr records"
    and run: "forEachE (processMarket env sportName) records \<lparr>matches = [], competitions = []\<rparr> = Returns st"
    by (rule groupMarkets_records)
  have "matchesInv env sportName [] (matches \<lparr>matches = [], competitions = []\<rparr>)"
    by (simp add: matchesInv_def firstRecord_def)
  from forEachE_matches [OF run this] r show ?thesis by simp
qed


subsection \<open>Mapping and sorting\<close>

lemma mapE_Cons:
  assumes "mapE f (x # xs) = Returns ys"
  obtains y rest where "f x = Returns y" "mapE f xs = Returns rest" "ys = y # rest"
proof (cases "f x")
  case (Inl e)
  with assms show ?thesis by simp
next
  case (Inr y)
  show ?thesis
  proof (cases "mapE f xs")
    case (Inl e)
    with Inr assms show ?thesis by simp
  next
    case rest: (Inr rest)
    with Inr assms have "ys = y # rest" by simp
    with Inr rest show ?thesis by (rule that)
  qed
qed

lemma mapE_all2: "mapE f xs = Returns ys \<Longrightarrow> list_all2 (\<lambda>x y. f x = Returns y) xs ys"
proof (induction xs arbitrary: ys)
  case Nil
  then show ?case by simp
next
  case (Cons x xs)
  from Cons.prems obtain y rest where "f x = Returns y" "mapE f xs = Returns rest" "ys = y # rest"
    by (rule mapE_Cons)
  with Cons.IH [of rest] show ?case by simp
qed

lemma mapE_member:
  assumes "mapE f xs = Returns ys" and "y \<in> set ys"
  obtains x where "x \<in> set xs" "f x = Returns y"
proof -
  from assms(2) obtain i where i: "i < length ys" "y = ys ! i"
    by (auto simp add: in_set_conv_nth)
  from mapE_all2 [OF assms(1)] have "length xs = length ys" "f (xs ! i) = Returns (ys ! i)"
    using i(1) by (simp_all add: list_all2_conv_all_nth)
  with i have "xs ! i \<in> set xs" "f (xs ! i) = Returns y" by simp_all
  then show ?thesis by (rule that)
qed

lemma set_sortFromE: "sortFromE env placed xs = Returns ys \<Longrightarrow> set ys = set placed \<union> set xs"
proof (induction xs arbitrary: placed)
  case Nil
  then show ?case by simp
next
  case (Cons a xs)
  from Cons.prems obtain placed' where p: "insertE env a placed = Returns placed'"
    and r: "sortFromE env placed' xs = Returns ys"
    by (rule sortFromE_Cons)
  from Cons.IH [OF r] set_insertE [OF p] show ?case by auto
qed

lemma set_sortByName: "sortByName env xs = Returns ys \<Longrightarrow> set ys = set xs"
  using set_sortFromE [of env "[]" xs ys] by (simp add: sortByName_def)

subsection \<open>Markets of a match\<close>

lemma transformMarket_truthy:
  assumes "truthy (resultOf (transformMarket r))"
  shows "truthy (field r ''runners'')" and "resultOf (transformMarket r) \<noteq> JNull"
    and "transformMarket r = Returns (resultOf (transformMarket r))"
proof -
  from assms show "truthy (field r ''runners'')"
    by (cases "truthy r \<and> truthy (field r ''runners'')")
      (auto simp add: transformMarket_def resultOf_def)
  from assms show "resultOf (transformMarket r) \<noteq> JNull" by auto
  from transformMarket_returns [of r] show "transformMarket r = Returns (resultOf (transformMarket r))"
    by (auto simp add: resultOf_def)
qed

lemma marketsOf_member:
  assumes "tm \<in> set (marketsOf env k records)"
  shows "tm \<noteq> JNull \<and> (\<exists>r \<in> set records. truthy (field r ''runners'') \<and> transformMarket r = Returns tm)"
proof -
  from assms obtain r where r: "r \<in> set records" "tm = resultOf (transformMarket r)" "truthy tm"
    by (auto simp add: marketsOf_def)
  with transformMarket_truthy [of r] show ?thesis by auto
qed

lemma matchesInv_markets:
  assumes "matchesInv env sportName records ms" and "(k, m) \<in> set ms"
  shows "elems (field m ''markets'') = marketsOf env k records"
proof -
  from assms(1) have "distinct (map fst ms)" by (simp add: matchesInv_def)
  from map_of_is_SomeI [OF this assms(2)] have look: "map_of ms k = Some m" .
  from assms(1) have "map_of ms k
      = map_option (\<lambda>r. matchOf env sportName r (marketsOf env k records)) (firstRecord env k records)"
    by (simp add: matchesInv_def)
  with look obtain r where "m = matchOf env sportName r (marketsOf env k records)"
    by (cases "firstRecord env k records") auto
  then show ?thesis by (simp add: matchOf_def)
qed

lemma tableGet_markets:
  assumes "matchesInv env sportName records ms"
  shows "elems (field (tableGet ms key) ''markets'') = marketsOf env key records
         \<or> elems (field (tableGet ms key) ''markets'') = []"
proof (cases "map_of ms key")
  case None
  then show ?thesis by (simp add: tableGet_absent objectPrototype_def)
next
  case (Some m)
  then have "(key, m) \<in> set ms" by (rule map_of_SomeD)
  from matchesInv_markets [OF assms this] Some show ?thesis by (simp add: tableGet_own)
qed

lemma competitionEntry_matches:
  assumes "competitionEntry env ms c = Returns c'" and "m \<in> set (elems (field c' ''matches''))"
  obtains key where "m = tableGet ms key"
proof -
  from assms(1) obtain list
    where list: "mapE (\<lambda>matchId. bindE (toStringE env matchId) (\<lambda>key. Returns (tableGet ms key)))
                   (elems (field c ''matches'')) = Returns list"
      and c': "c' = setField c ''matches'' (JArr list)"
    by (cases "mapE (\<lambda>matchId. bindE (toStringE env matchId) (\<lambda>key. Returns (tableGet ms key)))
                   (elems (field c ''matches''))")
      (simp_all add: competitionEntry_def bindE_def)
  have "m \<in> set list"
  proof (cases c)
    case (JObj kvs)
    with c' assms(2) show ?thesis by (simp add: map_of_tableSet)
  next
    case (JArr xs)
    with c' assms(2) show ?thesis by simp
  qed (use c' assms(2) in simp_all)
  with list obtain e where "bindE (toStringE env e) (\<lambda>key. Returns (tableGet ms key)) = Returns m"
    by (rule mapE_member)
  then obtain key where "m = tableGet ms key"
    by (cases "toStringE env e") (auto simp add: bindE_def)
  then show ?thesis by (rule that)
qed

lemma transformSportData_cricket_result:
  "resultOf (transformSportData samplePlatform cricketPayload ''cricket'')
   = JObj
       [(''success'', JBool True),
        (''sport'', JStr ''cricket''),
        (''competitions'', JArr
           [JObj [(''id'', JStr ''C1''), (''name'', JStr ''alpha Cup''),
                  (''matches'', JArr [matchObject ''E3'' (JStr ''C1'') (JStr ''alpha Cup'')
                                        [transformedRecord ''Match Odds'']])],
            JObj [(''id'', JStr ''C2''), (''name'', JStr ''Beta League''),
                  (''matches'', JArr [matchObject ''E1'' (JStr ''C2'') (JStr ''Beta League'')
                                        [transformedRecord ''Match Odds'']])]]),
        (''matchCount'', JNum 3),
        (''timestamp'', JNum 1500)]"
  by (simp add: transformSportData_cricket resultOf_def)

section \<open>Matches and their competitions\<close>

subsection \<open>Registrations\<close>

lemma registers_Some:
  "registers env r = Some ck \<longleftrightarrow>
     \<not> nullish r \<and> truthy (field r ''event'') \<and> truthy (eventIdOf r)
     \<and> truthy (competitionIdOf r) \<and> truthy (competitionNameOf r)
     \<and> toStringE env (competitionIdOf r) = Returns ck \<and> \<not> truthy (objectPrototype ck)"
  by (auto simp add: registers_def split: sum.splits)

lemma firstRegistrar_snoc:
  "firstRegistrar env ck (reg @ [r])
   = (case firstRegistrar env ck reg of
        Some x \<Rightarrow> Some x
      | None \<Rightarrow> if registers env r = Some ck then Some r else None)"
  by (simp add: firstRegistrar_def find_snoc)

lemma firstRegistrar_None: "firstRegistrar env ck reg = None \<longleftrightarrow> (\<forall>x \<in> set reg. registers env x \<noteq> Some ck)"
  by (auto simp add: firstRegistrar_def find_None_iff)

lemma firstRegistrar_Some:
  "firstRegistrar env ck reg = Some x \<Longrightarrow> x \<in> set reg \<and> registers env x = Some ck"
  by (auto simp add: firstRegistrar_def find_Some_iff)

lemma recordsBefore_seen:
  "firstRecord env k pre \<noteq> None \<Longrightarrow> recordsBefore env k (pre @ [x]) = recordsBefore env k pre"
  by (auto simp add: recordsBefore_def firstRecord_def find_None_iff)

lemma recordsBefore_fresh:
  "firstRecord env k pre = None \<Longrightarrow> eventKey env x = Some k \<Longrightarrow> recordsBefore env k (pre @ [x]) = pre"
  by (simp add: recordsBefore_def firstRecord_def find_None_iff)

lemma set_recordsBefore: "set (recordsBefore env k pre) \<subseteq> set pre"
  by (auto simp add: recordsBefore_def dest: set_takeWhileD)

lemma firstRecord_mono:
  "firstRecord env k pre = Some x \<Longrightarrow> firstRecord env k (pre @ [r]) = Some x"
  by (simp add: firstRecord_snoc)

lemma pushedBy_mono: "pushedBy env pre ck e \<Longrightarrow> pushedBy env (pre @ [r]) ck e"
  by (auto simp add: pushedBy_def firstRecord_snoc split: option.splits)

lemma pushedBy_seen: "pushedBy env pre ck e \<Longrightarrow> firstRecord env (keyOf env e) pre \<noteq> None"
  by (auto simp add: pushedBy_def split: option.splits)

lemma truthy_competitionOf [simp]: "truthy (competitionOf cid cname ids)"
  by (simp add: competitionOf_def)

lemma competitionOf_inject [simp]:
  "competitionOf cid cname ids = competitionOf cid' cname' ids' \<longleftrightarrow> cid = cid' \<and> cname = cname' \<and> ids = ids'"
  by (auto simp add: competitionOf_def)

lemma matches_competitionOf [simp]: "elems (field (competitionOf cid cname ids) ''matches'') = ids"
  by (simp add: competitionOf_def)

lemma listedMatches_competitionOf [simp]: "listedMatches (competitionOf cid cname ms) = ms"
  by (simp add: listedMatches_def)

lemma id_competitionOf [simp]: "field (competitionOf cid cname ms) ''id'' = cid"
  by (simp add: competitionOf_def)

lemma name_competitionOf [simp]: "field (competitionOf cid cname ms) ''name'' = cname"
  by (simp add: competitionOf_def)

lemma pushTo_competitionOf:
  "pushTo (competitionOf cid cname ids) ''matches'' e = Returns (competitionOf cid cname (ids @ [e]))"
  by (simp add: pushTo_def competitionOf_def)

lemma keyOf_eventKey: "eventKey env r = Some key \<Longrightarrow> keyOf env (eventIdOf r) = key"
  by (simp add: eventKey_Some keyOf_def)

subsection \<open>The table of competitions\<close>

lemma competitionsInv_distinct: "competitionsInv env pre extra cs \<Longrightarrow> distinct (map fst cs)"
  by (simp add: competitionsInv_def)

lemma competitionsInv_absent:
  "competitionsInv env pre extra cs \<Longrightarrow> map_of cs ck = None \<Longrightarrow> firstRegistrar env ck (pre @ extra) = None"
  by (simp add: competitionsInv_def)

lemma competitionsInv_entry:
  assumes "competitionsInv env pre extra cs" and "map_of cs ck = Some c"
  obtains x ids where "firstRegistrar env ck (pre @ extra) = Some x"
    "c = competitionOf (competitionIdOf x) (competitionNameOf x) ids"
    "distinct (map (keyOf env) ids)" "\<forall>e \<in> set ids. pushedBy env pre ck e"
proof -
  from assms have "\<exists>x ids. firstRegistrar env ck (pre @ extra) = Some x
               \<and> c = competitionOf (competitionIdOf x) (competitionNameOf x) ids
               \<and> distinct (map (keyOf env) ids) \<and> (\<forall>e \<in> set ids. pushedBy env pre ck e)"
    unfolding competitionsInv_def by blast
  then show ?thesis using that by blast
qed

lemma competitionsInv_first:
  assumes "competitionsInv env pre extra cs" and "firstRecord env k pre = Some r"
    and "truthy (competitionIdOf r)"
  obtains ck where "toStringE env (competitionIdOf r) = Returns ck" "\<not> truthy (objectPrototype ck)"
    "joined cs ck (eventIdOf r) \<longleftrightarrow> (\<exists>x \<in> set (recordsBefore env k pre @ [r]). registers env x = Some ck)"
proof -
  from assms have "\<exists>ck. toStringE env (competitionIdOf r) = Returns ck \<and> \<not> truthy (objectPrototype ck)
               \<and> (joined cs ck (eventIdOf r)
                    \<longleftrightarrow> (\<exists>x \<in> set (recordsBefore env k pre @ [r]). registers env x = Some ck))"
    unfolding competitionsInv_def by blast
  then show ?thesis using that by blast
qed

lemma competitionsInvI:
  assumes "distinct (map fst cs)"
    and "\<And>ck. map_of cs ck = None \<Longrightarrow> firstRegistrar env ck (pre @ extra) = None"
    and "\<And>ck c. map_of cs ck = Some c \<Longrightarrow>
            \<exists>x ids. firstRegistrar env ck (pre @ extra) = Some x
               \<and> c = competitionOf (competitionIdOf x) (competitionNameOf x) ids
               \<and> distinct (map (keyOf env) ids) \<and> (\<forall>e \<in> set ids. pushedBy env pre ck e)"
    and "\<And>k r. firstRecord env k pre = Some r \<Longrightarrow> truthy (competitionIdOf r) \<Longrightarrow>
            \<exists>ck. toStringE env (competitionIdOf r) = Returns ck \<and> \<not> truthy (objectPrototype ck)
               \<and> (joined cs ck (eventIdOf r)
                    \<longleftrightarrow> (\<exists>x \<in> set (recordsBefore env k pre @ [r]). registers env x = Some ck))"
  shows "competitionsInv env pre extra cs"
  unfolding competitionsInv_def using assms by blast

lemma competitionsInv_lookup:
  assumes "competitionsInv env pre extra cs"
  shows "truthy (tableGet cs ck) \<longleftrightarrow> map_of cs ck \<noteq> None \<or> truthy (objectPrototype ck)"
proof (cases "map_of cs ck")
  case None
  then show ?thesis by (simp add: tableGet_absent)
next
  case (Some c)
  with assms obtain x ids where "c = competitionOf (competitionIdOf x) (competitionNameOf x) ids"
    by (rule competitionsInv_entry)
  with Some show ?thesis by (simp add: tableGet_own)
qed

text \<open>A record that is not the first of its event.\<close>

lemma competitionsInv_not_first:
  assumes inv: "competitionsInv env pre [r] cs"
    and seen: "\<And>k. eventKey env r = Some k \<Longrightarrow> firstRecord env k pre \<noteq> None"
  shows "competitionsInv env (pre @ [r]) [] cs"
proof (rule competitionsInvI)
  show "distinct (map fst cs)" using inv by (rule competitionsInv_distinct)
next
  fix ck
  assume "map_of cs ck = None"
  with inv show "firstRegistrar env ck ((pre @ [r]) @ []) = None"
    by (simp add: competitionsInv_absent)
next
  fix ck c
  assume "map_of cs ck = Some c"
  with inv obtain x ids where "firstRegistrar env ck (pre @ [r]) = Some x"
    "c = competitionOf (competitionIdOf x) (competitionNameOf x) ids"
    "distinct (map (keyOf env) ids)" "\<forall>e \<in> set ids. pushedBy env pre ck e"
    by (rule competitionsInv_entry)
  then show "\<exists>x ids. firstRegistrar env ck ((pre @ [r]) @ []) = Some x
               \<and> c = competitionOf (competitionIdOf x) (competitionNameOf x) ids
               \<and> distinct (map (keyOf env) ids) \<and> (\<forall>e \<in> set ids. pushedBy env (pre @ [r]) ck e)"
    using pushedBy_mono by auto
next
  fix k x
  assume first: "firstRecord env k (pre @ [r]) = Some x" and t: "truthy (competitionIdOf x)"
  have old: "firstRecord env k pre = Some x"
  proof (cases "firstRecord env k pre")
    case None
    with first have "eventKey env r = Some k" by (auto simp add: firstRecord_snoc split: if_splits)
    with seen [of k] None show ?thesis by simp
  next
    case (Some y)
    with first show ?thesis by (simp add: firstRecord_snoc)
  qed
  then have "recordsBefore env k (pre @ [r]) = recordsBefore env k pre"
    by (simp add: recordsBefore_seen)
  with competitionsInv_first [OF inv old t]
  show "\<exists>ck. toStringE env (competitionIdOf x) = Returns ck \<and> \<not> truthy (objectPrototype ck)
               \<and> (joined cs ck (eventIdOf x)
                    \<longleftrightarrow> (\<exists>y \<in> set (recordsBefore env k (pre @ [r]) @ [x]). registers env y = Some ck))"
    by metis
qed


lemma joined_tableSet:
  "joined (tableSet cs ck c) ck' e
   = (if ck' = ck then e \<in> set (elems (field c ''matches'')) else joined cs ck' e)"
  by (simp add: joined_def map_of_tableSet)

lemma joined_absent: "map_of cs ck = None \<Longrightarrow> \<not> joined cs ck e"
  by (simp add: joined_def)

lemma competitionsInv_known:
  assumes inv: "competitionsInv env pre [] cs"
    and known: "\<And>ck. registers env r = Some ck \<Longrightarrow> map_of cs ck \<noteq> None"
  shows "competitionsInv env pre [r] cs"
proof -
  have same: "firstRegistrar env ck (pre @ [r]) = firstRegistrar env ck pre" for ck
  proof (cases "registers env r = Some ck")
    case True
    with known obtain c where "map_of cs ck = Some c" by blast
    with inv obtain x where "firstRegistrar env ck (pre @ []) = Some x"
      by (rule competitionsInv_entry)
    then show ?thesis by (simp add: firstRegistrar_snoc)
  next
    case False
    then show ?thesis by (simp add: firstRegistrar_snoc split: option.splits)
  qed
  from inv show ?thesis
    unfolding competitionsInv_def by (simp add: same)
qed

lemma competitionsInv_registered:
  assumes inv: "competitionsInv env pre [] cs"
    and new: "registers env r = Some key" and absent: "map_of cs key = None"
  shows "competitionsInv env pre [r]
           (tableSet cs key (competitionOf (competitionIdOf r) (competitionNameOf r) []))"
proof (rule competitionsInvI)
  let ?new = "competitionOf (competitionIdOf r) (competitionNameOf r) []"
  let ?cs = "tableSet cs key ?new"
  from competitionsInv_absent [OF inv absent] have unregistered: "firstRegistrar env key pre = None"
    by simp
  show "distinct (map fst ?cs)"
    using competitionsInv_distinct [OF inv] by (rule distinct_tableSet)
  show "firstRegistrar env ck (pre @ [r]) = None" if "map_of ?cs ck = None" for ck
  proof -
    from that have "ck \<noteq> key" "map_of cs ck = None"
      by (auto simp add: map_of_tableSet split: if_splits)
    with competitionsInv_absent [OF inv, of ck] new show ?thesis
      by (simp add: firstRegistrar_snoc)
  qed
  show "\<exists>x ids. firstRegistrar env ck (pre @ [r]) = Some x
               \<and> c = competitionOf (competitionIdOf x) (competitionNameOf x) ids
               \<and> distinct (map (keyOf env) ids) \<and> (\<forall>e \<in> set ids. pushedBy env pre ck e)"
    if look: "map_of ?cs ck = Some c" for ck c
  proof (cases "ck = key")
    case True
    with look have "c = ?new" by (simp add: map_of_tableSet)
    moreover from True unregistered new have "firstRegistrar env ck (pre @ [r]) = Some r"
      by (simp add: firstRegistrar_snoc)
    ultimately have "firstRegistrar env ck (pre @ [r]) = Some r
               \<and> c = competitionOf (competitionIdOf r) (competitionNameOf r) []
               \<and> distinct (map (keyOf env) []) \<and> (\<forall>e \<in> set []. pushedBy env pre ck e)"
      by simp
    then show ?thesis by blast
  next
    case False
    with look have "map_of cs ck = Some c" by (simp add: map_of_tableSet)
    with inv obtain x ids where "firstRegistrar env ck (pre @ []) = Some x"
      "c = competitionOf (competitionIdOf x) (competitionNameOf x) ids"
      "distinct (map (keyOf env) ids)" "\<forall>e \<in> set ids. pushedBy env pre ck e"
      by (rule competitionsInv_entry)
    then have "firstRegistrar env ck (pre @ [r]) = Some x
               \<and> c = competitionOf (competitionIdOf x) (competitionNameOf x) ids
               \<and> distinct (map (keyOf env) ids) \<and> (\<forall>e \<in> set ids. pushedBy env pre ck e)"
      by (simp add: firstRegistrar_snoc)
    then show ?thesis by blast
  qed
  show "\<exists>ck. toStringE env (competitionIdOf x) = Returns ck \<and> \<not> truthy (objectPrototype ck)
               \<and> (joined ?cs ck (eventIdOf x)
                    \<longleftrightarrow> (\<exists>y \<in> set (recordsBefore env k pre @ [x]). registers env y = Some ck))"
    if "firstRecord env k pre = Some x" "truthy (competitionIdOf x)" for k x
  proof -
    from competitionsInv_first [OF inv that] obtain ck
      where ck: "toStringE env (competitionIdOf x) = Returns ck" "\<not> truthy (objectPrototype ck)"
        "joined cs ck (eventIdOf x) \<longleftrightarrow> (\<exists>y \<in> set (recordsBefore env k pre @ [x]). registers env y = Some ck)"
      by blast
    have "joined ?cs ck (eventIdOf x) = joined cs ck (eventIdOf x)"
      using absent by (simp add: joined_tableSet joined_absent)
    with ck show ?thesis by blast
  qed
qed

lemma storeCompetition_competitions:
  assumes store: "storeCompetition env (competitionIdOf r) (competitionNameOf r) st = Returns st'"
    and inv: "competitionsInv env pre [] (competitions st)"
    and kept: "\<not> nullish r" "truthy (field r ''event'')" "truthy (eventIdOf r)"
  shows "competitionsInv env pre [r] (competitions st') \<and> matches st' = matches st"
  using store
proof (cases rule: storeCompetition_cases)
  case skipped
  then have "registers env r = None" by (auto simp add: registers_def)
  with competitionsInv_known [OF inv, of r] skipped(2) show ?thesis by simp
next
  case (known key)
  have "map_of (competitions st) ck \<noteq> None" if "registers env r = Some ck" for ck
  proof -
    from that known(3) have "ck = key" "\<not> truthy (objectPrototype key)"
      by (simp_all add: registers_Some)
    with known(4) competitionsInv_lookup [OF inv, of key] show ?thesis by simp
  qed
  with competitionsInv_known [OF inv, of r] known(5) show ?thesis by simp
next
  case (registered key)
  from registered(4) competitionsInv_lookup [OF inv, of key]
  have absent: "map_of (competitions st) key = None" and "\<not> truthy (objectPrototype key)"
    by auto
  with registered(1-3) kept have "registers env r = Some key"
    by (simp add: registers_Some)
  from competitionsInv_registered [OF inv this absent] registered(5) show ?thesis
    by (simp add: competitionOf_def)
qed


text \<open>The first record of an event whose match joins no competition.\<close>

lemma competitionsInv_unjoined:
  assumes inv: "competitionsInv env pre [r] cs"
    and fresh: "firstRecord env key pre = None"
    and k: "eventKey env r = Some key"
    and unknown: "truthy (competitionIdOf r) \<Longrightarrow>
       \<exists>ck. toStringE env (competitionIdOf r) = Returns ck \<and> \<not> truthy (objectPrototype ck)
            \<and> map_of cs ck = None"
  shows "competitionsInv env (pre @ [r]) [] cs"
proof (rule competitionsInvI)
  show "distinct (map fst cs)" using inv by (rule competitionsInv_distinct)
  show "firstRegistrar env ck ((pre @ [r]) @ []) = None" if "map_of cs ck = None" for ck
    using competitionsInv_absent [OF inv that] by simp
  show "\<exists>x ids. firstRegistrar env ck ((pre @ [r]) @ []) = Some x
               \<and> c = competitionOf (competitionIdOf x) (competitionNameOf x) ids
               \<and> distinct (map (keyOf env) ids) \<and> (\<forall>e \<in> set ids. pushedBy env (pre @ [r]) ck e)"
    if "map_of cs ck = Some c" for ck c
  proof -
    from inv that obtain x ids where "firstRegistrar env ck (pre @ [r]) = Some x"
      "c = competitionOf (competitionIdOf x) (competitionNameOf x) ids"
      "distinct (map (keyOf env) ids)" "\<forall>e \<in> set ids. pushedBy env pre ck e"
      by (rule competitionsInv_entry)
    then show ?thesis using pushedBy_mono by auto
  qed
  show "\<exists>ck. toStringE env (competitionIdOf x) = Returns ck \<and> \<not> truthy (objectPrototype ck)
               \<and> (joined cs ck (eventIdOf x)
                    \<longleftrightarrow> (\<exists>y \<in> set (recordsBefore env k' (pre @ [r]) @ [x]). registers env y = Some ck))"
    if first: "firstRecord env k' (pre @ [r]) = Some x" and t: "truthy (competitionIdOf x)" for k' x
  proof (cases "firstRecord env k' pre")
    case (Some y)
    with first have old: "firstRecord env k' pre = Some x" by (simp add: firstRecord_snoc)
    then have "recordsBefore env k' (pre @ [r]) = recordsBefore env k' pre"
      by (simp add: recordsBefore_seen)
    with competitionsInv_first [OF inv old t] show ?thesis by metis
  next
    case None
    with first have x: "x = r" and k': "eventKey env r = Some k'"
      by (auto simp add: firstRecord_snoc split: if_splits)
    with k have "k' = key" by simp
    with x t unknown obtain ck where ck: "toStringE env (competitionIdOf x) = Returns ck"
      "\<not> truthy (objectPrototype ck)" "map_of cs ck = None"
      by blast
    from competitionsInv_absent [OF inv ck(3)]
    have "\<forall>y \<in> set (pre @ [r]). registers env y \<noteq> Some ck"
      by (simp add: firstRegistrar_None)
    moreover have "recordsBefore env k' (pre @ [r]) @ [x] = pre @ [r]"
      using recordsBefore_fresh [OF fresh k] x \<open>k' = key\<close> by simp
    ultimately have "\<not> (\<exists>y \<in> set (recordsBefore env k' (pre @ [r]) @ [x]). registers env y = Some ck)"
      by simp
    with ck joined_absent [OF ck(3), of "eventIdOf x"] show ?thesis by blast
  qed
qed

text \<open>The first record of an event whose match joins a competition.\<close>

lemma competitionsInv_pushed:
  assumes inv: "competitionsInv env pre [r] cs"
    and fresh: "firstRecord env key pre = None"
    and k: "eventKey env r = Some key"
    and cid: "truthy (competitionIdOf r)" "toStringE env (competitionIdOf r) = Returns ck"
    and push: "pushTo (tableGet cs ck) ''matches'' (eventIdOf r) = Returns c'"
  shows "competitionsInv env (pre @ [r]) [] (tableSet cs ck c')"
proof -
  obtain c where c: "map_of cs ck = Some c"
  proof (cases "map_of cs ck")
    case None
    with push show ?thesis by (simp add: tableGet_absent pushTo_objectPrototype)
  next
    case (Some c)
    then show ?thesis by (rule that)
  qed
  with inv obtain x ids where registrar: "firstRegistrar env ck (pre @ [r]) = Some x"
    and shape: "c = competitionOf (competitionIdOf x) (competitionNameOf x) ids"
    and dist: "distinct (map (keyOf env) ids)" and old: "\<forall>e \<in> set ids. pushedBy env pre ck e"
    by (rule competitionsInv_entry)
  from push c shape
  have c': "c' = competitionOf (competitionIdOf x) (competitionNameOf x) (ids @ [eventIdOf r])"
    by (simp add: tableGet_own pushTo_competitionOf)
  from firstRegistrar_Some [OF registrar] have reg: "x \<in> set (pre @ [r])" "registers env x = Some ck"
    by simp_all
  then have proto: "\<not> truthy (objectPrototype ck)" by (simp add: registers_Some)
  have ek: "keyOf env (eventIdOf r) = key" using k by (rule keyOf_eventKey)
  have first: "firstRecord env key (pre @ [r]) = Some r"
    using fresh k by (simp add: firstRecord_snoc)
  have new: "pushedBy env (pre @ [r]) ck (eventIdOf r)"
    using first cid ek by (simp add: pushedBy_def)
  have notin: "key \<notin> keyOf env ` set ids"
  proof
    assume "key \<in> keyOf env ` set ids"
    then obtain e where "e \<in> set ids" "keyOf env e = key" by auto
    with old pushedBy_seen [of env pre ck e] fresh show False by auto
  qed
  show ?thesis
  proof (rule competitionsInvI)
    show "distinct (map fst (tableSet cs ck c'))"
      using competitionsInv_distinct [OF inv] by (rule distinct_tableSet)
    show "firstRegistrar env ck2 ((pre @ [r]) @ []) = None" if "map_of (tableSet cs ck c') ck2 = None" for ck2
    proof -
      from that have "map_of cs ck2 = None" by (auto simp add: map_of_tableSet split: if_splits)
      from competitionsInv_absent [OF inv this] show ?thesis by simp
    qed
    show "\<exists>x ids. firstRegistrar env ck2 ((pre @ [r]) @ []) = Some x
               \<and> c2 = competitionOf (competitionIdOf x) (competitionNameOf x) ids
               \<and> distinct (map (keyOf env) ids) \<and> (\<forall>e \<in> set ids. pushedBy env (pre @ [r]) ck2 e)"
      if look: "map_of (tableSet cs ck c') ck2 = Some c2" for ck2 c2
    proof (cases "ck2 = ck")
      case True
      with look have "c2 = c'" by (simp add: map_of_tableSet)
      moreover have "distinct (map (keyOf env) (ids @ [eventIdOf r]))"
        using dist notin ek by simp
      moreover have "\<forall>e \<in> set (ids @ [eventIdOf r]). pushedBy env (pre @ [r]) ck e"
        using old new pushedBy_mono by auto
      ultimately show ?thesis using c' registrar True by auto
    next
      case False
      with look have "map_of cs ck2 = Some c2" by (simp add: map_of_tableSet)
      with inv obtain y ids2 where "firstRegistrar env ck2 (pre @ [r]) = Some y"
        "c2 = competitionOf (competitionIdOf y) (competitionNameOf y) ids2"
        "distinct (map (keyOf env) ids2)" "\<forall>e \<in> set ids2. pushedBy env pre ck2 e"
        by (rule competitionsInv_entry)
      then show ?thesis using pushedBy_mono by auto
    qed
    show "\<exists>ck2. toStringE env (competitionIdOf y) = Returns ck2 \<and> \<not> truthy (objectPrototype ck2)
               \<and> (joined (tableSet cs ck c') ck2 (eventIdOf y)
                    \<longleftrightarrow> (\<exists>z \<in> set (recordsBefore env k' (pre @ [r]) @ [y]). registers env z = Some ck2))"
      if fy: "firstRecord env k' (pre @ [r]) = Some y" and t: "truthy (competitionIdOf y)" for k' y
    proof (cases "firstRecord env k' pre")
      case None
      with fy have y: "y = r" and k': "eventKey env r = Some k'"
        by (auto simp add: firstRecord_snoc split: if_splits)
      with k have "k' = key" by simp
      have "recordsBefore env k' (pre @ [r]) @ [y] = pre @ [r]"
        using recordsBefore_fresh [OF fresh k] y \<open>k' = key\<close> by simp
      with reg have "\<exists>z \<in> set (recordsBefore env k' (pre @ [r]) @ [y]). registers env z = Some ck"
        by auto
      moreover have "joined (tableSet cs ck c') ck (eventIdOf y)"
        using y c' by (simp add: joined_tableSet)
      ultimately show ?thesis using cid(2) proto y by blast
    next
      case (Some z)
      with fy have oldy: "firstRecord env k' pre = Some y" by (simp add: firstRecord_snoc)
      then have before: "recordsBefore env k' (pre @ [r]) = recordsBefore env k' pre"
        by (simp add: recordsBefore_seen)
      from competitionsInv_first [OF inv oldy t] obtain ck2
        where ck2: "toStringE env (competitionIdOf y) = Returns ck2" "\<not> truthy (objectPrototype ck2)"
          "joined cs ck2 (eventIdOf y)
             \<longleftrightarrow> (\<exists>z \<in> set (recordsBefore env k' pre @ [y]). registers env z = Some ck2)"
        by blast
      have "k' \<noteq> key" using oldy fresh by auto
      moreover have "keyOf env (eventIdOf y) = k'"
        using firstRecord_Some_key [OF oldy] by (rule keyOf_eventKey)
      ultimately have "eventIdOf y \<noteq> eventIdOf r" using ek by auto
      then have "joined (tableSet cs ck c') ck2 (eventIdOf y) = joined cs ck2 (eventIdOf y)"
        using c c' shape by (simp add: joined_def map_of_tableSet matches_competitionOf)
      with ck2 before show ?thesis by metis
    qed
  qed
qed

lemma addMarket_competitions:
  assumes "addMarket env r eid st = Returns st'"
  shows "competitions st' = competitions st"
  using assms by (cases rule: addMarket_cases) simp_all

lemma processMarket_competitions:
  assumes "processMarket env sportName r st = Returns st'"
    and minv: "matchesInv env sportName pre (matches st)"
    and cinv: "competitionsInv env pre [] (competitions st)"
  shows "competitionsInv env (pre @ [r]) [] (competitions st')"
  using assms(1)
proof (cases rule: processMarket_cases)
  case dropped
  then have none: "registers env r = None" "eventKey env r = None"
    by (auto simp add: registers_def eventKey_def)
  from competitionsInv_known [OF cinv, of r] none(1)
  have "competitionsInv env pre [r] (competitions st)" by simp
  from competitionsInv_not_first [OF this] none(2) dropped(3) show ?thesis by simp
next
  case (grouped st1 st2)
  from storeCompetition_competitions [OF grouped(4) cinv grouped(1-3)]
  have mid: "competitionsInv env pre [r] (competitions st1)" and m1: "matches st1 = matches st"
    by simp_all
  from addMarket_competitions [OF grouped(6)] have last: "competitions st' = competitions st2" .
  from grouped(5) show ?thesis
  proof (cases rule: createMatch_cases)
    case (existing key)
    from existing(2) m1 matchesInv_lookup [OF minv, of key]
    have known: "firstRecord env key pre \<noteq> None \<or> truthy (objectPrototype key)" by simp
    have "firstRecord env k pre \<noteq> None" if "eventKey env r = Some k" for k
      using that existing(1) known by (auto simp add: eventKey_Some)
    from competitionsInv_not_first [OF mid this] existing(3) last show ?thesis by simp
  next
    case (created key startTime)
    from created(2) m1 matchesInv_lookup [OF minv, of key]
    have fresh: "firstRecord env key pre = None" and proto: "\<not> truthy (objectPrototype key)"
      by simp_all
    with grouped(1-3) created(1) have k: "eventKey env r = Some key"
      by (simp add: eventKey_Some)
    from created(3) show ?thesis
    proof (cases rule: addToCompetition_cases)
      case none
      then have "competitions st2 = competitions st1" by simp
      with competitionsInv_unjoined [OF mid fresh k] none(1) last show ?thesis by simp
    next
      case (unknown ck)
      then have same: "competitions st2 = competitions st1" by simp
      from unknown(3) competitionsInv_lookup [OF mid, of ck]
      have "map_of (competitions st1) ck = None" "\<not> truthy (objectPrototype ck)" by auto
      with unknown(2)
      have "\<exists>ck. toStringE env (competitionIdOf r) = Returns ck \<and> \<not> truthy (objectPrototype ck)
            \<and> map_of (competitions st1) ck = None"
        by blast
      with competitionsInv_unjoined [OF mid fresh k] same last show ?thesis by simp
    next
      case (pushed ck c')
      from pushed(4) have "pushTo (tableGet (competitions st1) ck) ''matches'' (eventIdOf r) = Returns c'"
        by simp
      from competitionsInv_pushed [OF mid fresh k pushed(1,2) this] pushed(5) last
      show ?thesis by simp
    qed
  qed
qed

lemma forEachE_tables:
  assumes "forEachE (processMarket env sportName) rs st = Returns st'"
    and "matchesInv env sportName pre (matches st)"
    and "competitionsInv env pre [] (competitions st)"
  shows "competitionsInv env (pre @ rs) [] (competitions st')"
  using assms
proof (induction rs arbitrary: st pre)
  case Nil
  then show ?case by simp
next
  case (Cons r rs)
  from Cons.prems(1) obtain st1 where one: "processMarket env sportName r st = Returns st1"
    and rest: "forEachE (processMarket env sportName) rs st1 = Returns st'"
    by (cases "processMarket env sportName r st") simp_all
  from Cons.IH [OF rest processMarket_matches [OF one Cons.prems(2)]
      processMarket_competitions [OF one Cons.prems(2,3)]]
  show ?case by simp
qed

lemma groupMarkets_competitions:
  assumes "groupMarkets env sportName result = Returns st"
  shows "competitionsInv env (elems result) [] (competitions st)"
proof -
  from assms obtain records where r: "result = JArr records"
    and run: "forEachE (processMarket env sportName) records \<lparr>matches = [], competitions = []\<rparr> = Returns st"
    by (rule groupMarkets_records)
  have m: "matchesInv env sportName [] (matches \<lparr>matches = [], competitions = []\<rparr>)"
    by (simp add: matchesInv_def firstRecord_def)
  have c: "competitionsInv env [] [] (competitions \<lparr>matches = [], competitions = []\<rparr>)"
    by (simp add: competitionsInv_def firstRecord_def firstRegistrar_def)
  from forEachE_tables [OF run m c] r show ?thesis by simp
qed


subsection \<open>The competitions of the payload\<close>

lemma set_ownValues: "set (ownValues t) = snd ` set t"
  by (auto simp add: ownValues_def)

lemma mapE_lookup:
  "mapE (\<lambda>matchId. bindE (toStringE env matchId) (\<lambda>key. Returns (tableGet ms key))) ids = Returns list
   \<Longrightarrow> list = map (\<lambda>e. tableGet ms (keyOf env e)) ids"
proof (induction ids arbitrary: list)
  case Nil
  then show ?case by simp
next
  case (Cons e ids)
  from Cons.prems obtain y rest
    where y: "bindE (toStringE env e) (\<lambda>key. Returns (tableGet ms key)) = Returns y"
      and rest: "mapE (\<lambda>matchId. bindE (toStringE env matchId) (\<lambda>key. Returns (tableGet ms key))) ids
                 = Returns rest"
      and list: "list = y # rest"
    by (rule mapE_Cons)
  from y have "y = tableGet ms (keyOf env e)"
    by (cases "toStringE env e") (auto simp add: bindE_def keyOf_def)
  with Cons.IH [OF rest] list show ?case by simp
qed

lemma competitionEntry_competitionOf:
  assumes "competitionEntry env ms (competitionOf cid cname ids) = Returns c'"
  shows "c' = competitionOf cid cname (map (\<lambda>e. tableGet ms (keyOf env e)) ids)"
proof -
  from assms obtain list
    where list: "mapE (\<lambda>matchId. bindE (toStringE env matchId) (\<lambda>key. Returns (tableGet ms key))) ids
                 = Returns list"
      and c': "c' = setField (competitionOf cid cname ids) ''matches'' (JArr list)"
    by (cases "mapE (\<lambda>matchId. bindE (toStringE env matchId) (\<lambda>key. Returns (tableGet ms key))) ids")
      (simp_all add: competitionEntry_def bindE_def)
  from mapE_lookup [OF list] c' show ?thesis by (simp add: competitionOf_def)
qed

lemma mapE_image:
  assumes "mapE f xs = Returns ys" and "x \<in> set xs"
  obtains y where "y \<in> set ys" "f x = Returns y"
proof -
  from assms(2) obtain i where i: "i < length xs" "x = xs ! i"
    by (auto simp add: in_set_conv_nth)
  from mapE_all2 [OF assms(1)] have "length xs = length ys" "f (xs ! i) = Returns (ys ! i)"
    using i(1) by (simp_all add: list_all2_conv_all_nth)
  with i have "ys ! i \<in> set ys" "f x = Returns (ys ! i)" by simp_all
  then show ?thesis by (rule that)
qed

lemma matchesInv_tableGet:
  assumes "matchesInv env sportName records ms" and "firstRecord env k records = Some r"
  shows "tableGet ms k = matchOf env sportName r (marketsOf env k records)"
  using assms by (simp add: matchesInv_def tableGet_own)

lemma pushedBy_match:
  assumes "matchesInv env sportName records ms" and "pushedBy env records ck e"
  obtains r where "firstRecord env (keyOf env e) records = Some r" "eventIdOf r = e"
    "truthy (competitionIdOf r)" "toStringE env (competitionIdOf r) = Returns ck"
    "tableGet ms (keyOf env e) = matchOf env sportName r (marketsOf env (keyOf env e) records)"
proof -
  from assms(2) obtain r where r: "firstRecord env (keyOf env e) records = Some r" "eventIdOf r = e"
    "truthy (competitionIdOf r)" "toStringE env (competitionIdOf r) = Returns ck"
    by (auto simp add: pushedBy_def split: option.splits)
  from matchesInv_tableGet [OF assms(1) r(1)] r show ?thesis by (rule that [rotated 4])
qed

lemma matchOf_id: "field (matchOf env sportName r ms) ''id'' = eventIdOf r"
  by (simp add: matchOf_def)

lemma firstRecord_same_id:
  assumes "firstRecord env k records = Some r" and "firstRecord env k' records = Some r'"
    and "eventIdOf r = eventIdOf r'"
  shows "k = k'" and "r = r'"
proof -
  from firstRecord_Some_key [OF assms(1)] firstRecord_Some_key [OF assms(2)] assms(3)
  show "k = k'" by (simp add: eventKey_Some)
  with assms(1,2) show "r = r'" by simp
qed

lemma matchesInv_count:
  assumes "matchesInv env sportName records ms"
  shows "length ms = length (remdups (List.map_filter (eventKey env) records))"
proof -
  from assms have d: "distinct (map fst ms)" by (simp add: matchesInv_def)
  have "set (map fst ms) = dom (map_of ms)" by (simp add: dom_map_of_conv_image_fst)
  also have "\<dots> = {k. firstRecord env k records \<noteq> None}"
    using assms by (auto simp add: matchesInv_def dom_def)
  also have "\<dots> = set (List.map_filter (eventKey env) records)"
    by (force simp add: firstRecord_def find_None_iff List.map_filter_def)
  finally have "card (set (map fst ms)) = card (set (List.map_filter (eventKey env) records))"
    by simp
  moreover from d have "card (set (map fst ms)) = length (map fst ms)" by (rule distinct_card)
  ultimately show ?thesis by (simp add: card_set)
qed

lemma competitionsInv_shape:
  assumes "competitionsInv env records [] cs" and "map_of cs ck = Some (competitionOf cid cname ids)"
  shows "toStringE env cid = Returns ck" and "distinct (map (keyOf env) ids)"
    and "\<forall>e \<in> set ids. pushedBy env records ck e"
    and "\<exists>x. firstRegistrar env ck records = Some x \<and> cid = competitionIdOf x \<and> cname = competitionNameOf x"
proof -
  from assms obtain x ids' where x: "firstRegistrar env ck (records @ []) = Some x"
    "competitionOf cid cname ids = competitionOf (competitionIdOf x) (competitionNameOf x) ids'"
    "distinct (map (keyOf env) ids')" "\<forall>e \<in> set ids'. pushedBy env records ck e"
    by (rule competitionsInv_entry)
  from x(1) have reg: "firstRegistrar env ck records = Some x" by simp
  from firstRegistrar_Some [OF reg] have "toStringE env (competitionIdOf x) = Returns ck"
    by (simp add: registers_Some)
  with x show "toStringE env cid = Returns ck" by simp
  from x show "distinct (map (keyOf env) ids)" and "\<forall>e \<in> set ids. pushedBy env records ck e"
    by simp_all
  from x reg
  show "\<exists>x. firstRegistrar env ck records = Some x \<and> cid = competitionIdOf x \<and> cname = competitionNameOf x"
    by simp
qed

lemma sportBody_listing:
  assumes "sportBody env data sportName = Returns out"
  obtains st where "groupMarkets env sportName (field data ''result'') = Returns st"
    "field out ''matchCount'' = JNum (of_nat (length (matches st)))"
    "\<forall>c'. c' \<in> set (competitionsOf out) \<longleftrightarrow>
        (\<exists>ck cid cname ids. map_of (competitions st) ck = Some (competitionOf cid cname ids)
           \<and> c' = competitionOf cid cname (map (\<lambda>e. tableGet (matches st) (keyOf env e)) ids))"
proof -
  from sportBody_competitions [OF assms] obtain st arr
    where st: "groupMarkets env sportName (field data ''result'') = Returns st"
      and arr: "mapE (competitionEntry env (matches st)) (ownValues (competitions st)) = Returns arr"
      and sorted: "sortByName env arr = Returns (elems (field out ''competitions''))"
      and count: "field out ''matchCount'' = JNum (of_nat (length (matches st)))"
    by blast
  let ?cs = "competitions st" and ?ms = "matches st"
  note cinv = groupMarkets_competitions [OF st]
  from set_sortByName [OF sorted] have comps: "set (competitionsOf out) = set arr"
    by (simp add: competitionsOf_def)
  have forth: "\<exists>ck cid cname ids. map_of ?cs ck = Some (competitionOf cid cname ids)
           \<and> c' = competitionOf cid cname (map (\<lambda>e. tableGet ?ms (keyOf env e)) ids)"
    if "c' \<in> set (competitionsOf out)" for c'
  proof -
    from that comps have "c' \<in> set arr" by simp
    with arr obtain c where c: "c \<in> set (ownValues ?cs)" "competitionEntry env ?ms c = Returns c'"
      by (rule mapE_member)
    from c(1) obtain ck where "(ck, c) \<in> set ?cs" by (auto simp add: set_ownValues)
    from map_of_is_SomeI [OF competitionsInv_distinct [OF cinv] this]
    have look: "map_of ?cs ck = Some c" .
    with cinv obtain x ids where shape: "c = competitionOf (competitionIdOf x) (competitionNameOf x) ids"
      by (rule competitionsInv_entry)
    with c(2)
    have "c' = competitionOf (competitionIdOf x) (competitionNameOf x)
                 (map (\<lambda>e. tableGet ?ms (keyOf env e)) ids)"
      by (simp add: competitionEntry_competitionOf)
    with look shape show ?thesis by blast
  qed
  have present: "competitionOf cid cname (map (\<lambda>e. tableGet ?ms (keyOf env e)) ids) \<in> set (competitionsOf out)"
    if "map_of ?cs ck = Some (competitionOf cid cname ids)" for ck cid cname ids
  proof -
    from that have "(ck, competitionOf cid cname ids) \<in> set ?cs" by (rule map_of_SomeD)
    then have "competitionOf cid cname ids \<in> set (ownValues ?cs)"
      by (force simp add: set_ownValues)
    with arr obtain y where y: "y \<in> set arr"
      "competitionEntry env ?ms (competitionOf cid cname ids) = Returns y"
      by (rule mapE_image)
    from competitionEntry_competitionOf [OF y(2)] y(1) comps show ?thesis by simp
  qed
  from forth present
  have "\<forall>c'. c' \<in> set (competitionsOf out) \<longleftrightarrow>
        (\<exists>ck cid cname ids. map_of ?cs ck = Some (competitionOf cid cname ids)
           \<and> c' = competitionOf cid cname (map (\<lambda>e. tableGet ?ms (keyOf env e)) ids))"
    by blast
  with st count show ?thesis by (rule that)
qed

lemma listed_match:
  assumes minv: "matchesInv env sportName records ms"
    and cinv: "competitionsInv env records [] cs"
    and look: "map_of cs ck = Some (competitionOf cid cname ids)"
    and m: "m \<in> set (map (\<lambda>e. tableGet ms (keyOf env e)) ids)"
  obtains r where "firstRecord env (keyOf env (eventIdOf r)) records = Some r"
    "eventIdOf r \<in> set ids" "truthy (competitionIdOf r)"
    "toStringE env (competitionIdOf r) = Returns ck"
    "m = matchOf env sportName r (marketsOf env (keyOf env (eventIdOf r)) records)"
proof -
  from m obtain e where e: "e \<in> set ids" "m = tableGet ms (keyOf env e)" by auto
  with competitionsInv_shape(3) [OF cinv look] have "pushedBy env records ck e" by simp
  with minv obtain r where r: "firstRecord env (keyOf env e) records = Some r" "eventIdOf r = e"
    "truthy (competitionIdOf r)" "toStringE env (competitionIdOf r) = Returns ck"
    "tableGet ms (keyOf env e) = matchOf env sportName r (marketsOf env (keyOf env e) records)"
    by (rule pushedBy_match)
  with e have "firstRecord env (keyOf env (eventIdOf r)) records = Some r"
    "eventIdOf r \<in> set ids" "truthy (competitionIdOf r)"
    "toStringE env (competitionIdOf r) = Returns ck"
    "m = matchOf env sportName r (marketsOf env (keyOf env (eventIdOf r)) records)"
    by simp_all
  then show ?thesis by (rule that)
qed

lemma listed_first_record:
  assumes minv: "matchesInv env sportName records ms"
    and cinv: "competitionsInv env records [] cs"
    and first: "firstRecord env k records = Some r"
    and look: "map_of cs ck = Some (competitionOf cid cname ids)"
    and m: "matchOf env sportName r (marketsOf env k records)
            \<in> set (map (\<lambda>e. tableGet ms (keyOf env e)) ids)"
  shows "truthy (competitionIdOf r)" and "toStringE env (competitionIdOf r) = Returns ck"
    and "eventIdOf r \<in> set ids"
proof -
  from minv cinv look m obtain r'
    where r': "firstRecord env (keyOf env (eventIdOf r')) records = Some r'"
      "eventIdOf r' \<in> set ids" "truthy (competitionIdOf r')"
      "toStringE env (competitionIdOf r') = Returns ck"
      "matchOf env sportName r (marketsOf env k records)
       = matchOf env sportName r' (marketsOf env (keyOf env (eventIdOf r')) records)"
    by (rule listed_match)
  from r'(5) have "eventIdOf r = eventIdOf r'"
    using matchOf_id [of env sportName r] matchOf_id [of env sportName r'] by metis
  from firstRecord_same_id(2) [OF first r'(1) this] r'
  show "truthy (competitionIdOf r)" and "toStringE env (competitionIdOf r) = Returns ck"
    and "eventIdOf r \<in> set ids"
    by simp_all
qed

lemma distinct_listed:
  assumes minv: "matchesInv env sportName records ms"
    and cinv: "competitionsInv env records [] cs"
    and look: "map_of cs ck = Some (competitionOf cid cname ids)"
  shows "distinct (map (\<lambda>e. tableGet ms (keyOf env e)) ids)"
proof -
  note shape = competitionsInv_shape [OF cinv look]
  from shape(2) have "distinct ids" by (simp add: distinct_map)
  moreover have "inj_on (\<lambda>e. tableGet ms (keyOf env e)) (set ids)"
  proof (rule inj_onI)
    fix a b
    assume a: "a \<in> set ids" and b: "b \<in> set ids"
      and same: "tableGet ms (keyOf env a) = tableGet ms (keyOf env b)"
    from a shape(3) have "pushedBy env records ck a" by simp
    with minv obtain ra where ra: "eventIdOf ra = a"
      "tableGet ms (keyOf env a) = matchOf env sportName ra (marketsOf env (keyOf env a) records)"
      by (rule pushedBy_match)
    from b shape(3) have "pushedBy env records ck b" by simp
    with minv obtain rb where rb: "eventIdOf rb = b"
      "tableGet ms (keyOf env b) = matchOf env sportName rb (marketsOf env (keyOf env b) records)"
      by (rule pushedBy_match)
    from same ra(2) rb(2) have "eventIdOf ra = eventIdOf rb"
      using matchOf_id [of env sportName ra] matchOf_id [of env sportName rb] by metis
    with ra(1) rb(1) show "a = b" by simp
  qed
  ultimately show ?thesis by (simp add: distinct_map)
qed

lemma distinct_map_insertE:
  "insertE env a bs = Returns cs \<Longrightarrow> distinct (map h (a # bs)) \<Longrightarrow> distinct (map h cs)"
proof (induction bs arbitrary: cs)
  case Nil
  then show ?case by auto
next
  case (Cons b bs)
  from Cons.prems(1) show ?case
  proof (cases rule: insertE_Cons)
    case (1 order)
    with Cons.prems(2) show ?thesis by simp
  next
    case (2 order rest)
    from Cons.prems(2) have "distinct (map h (a # bs))" by auto
    from Cons.IH [OF 2(3) this] have "distinct (map h rest)" .
    moreover from set_insertE [OF 2(3)] Cons.prems(2) have "h b \<notin> h ` set rest" by auto
    ultimately show ?thesis using 2(4) by simp
  qed
qed

lemma distinct_map_sortFromE:
  "sortFromE env placed xs = Returns ys \<Longrightarrow> distinct (map h (placed @ xs)) \<Longrightarrow> distinct (map h ys)"
proof (induction xs arbitrary: placed)
  case Nil
  then show ?case by simp
next
  case (Cons a xs)
  from Cons.prems(1) obtain placed' where p: "insertE env a placed = Returns placed'"
    and r: "sortFromE env placed' xs = Returns ys"
    by (rule sortFromE_Cons)
  from Cons.prems(2) have "distinct (map h (a # placed))" by auto
  from distinct_map_insertE [OF p this] have "distinct (map h placed')" .
  with set_insertE [OF p] Cons.prems(2) have "distinct (map h (placed' @ xs))" by auto
  from Cons.IH [OF r this] show ?case .
qed

lemma distinct_map_sortByName:
  "sortByName env xs = Returns ys \<Longrightarrow> distinct (map h xs) \<Longrightarrow> distinct (map h ys)"
  using distinct_map_sortFromE [of env "[]" xs ys h] by (simp add: sortByName_def)

lemma ownValues_keys:
  assumes d: "distinct (map fst t)" and h: "\<forall>p \<in> set t. h (snd p) = fst p"
  shows "distinct (map h (ownValues t))"
proof -
  let ?L = "sort_key (\<lambda>p. indexValue (fst p)) (filter (\<lambda>p. isArrayIndex (fst p)) t)
              @ filter (\<lambda>p. \<not> isArrayIndex (fst p)) t"
  from d have dt: "distinct t" and inj: "inj_on fst (set t)" by (simp_all add: distinct_map)
  from dt have "distinct ?L" by auto
  moreover have "set ?L \<subseteq> set t" by auto
  with inj have "inj_on fst (set ?L)" by (rule inj_on_subset)
  ultimately have "distinct (map fst ?L)" by (simp only: distinct_map simp_thms)
  moreover have "map h (ownValues t) = map fst ?L"
    using h by (auto simp add: ownValues_def)
  ultimately show ?thesis by simp
qed

lemma list_all2_same_image: "list_all2 (\<lambda>x y. h y = h x) xs ys \<Longrightarrow> map h ys = map h xs"
  by (induction rule: list_all2_induct) simp_all

lemma sportBody_distinct:
  assumes "sportBody env data sportName = Returns out"
  shows "distinct (map (\<lambda>c. keyOf env (field c ''id'')) (competitionsOf out))"
proof -
  let ?h = "\<lambda>c. keyOf env (field c ''id'')"
  from sportBody_competitions [OF assms] obtain st arr
    where st: "groupMarkets env sportName (field data ''result'') = Returns st"
      and arr: "mapE (competitionEntry env (matches st)) (ownValues (competitions st)) = Returns arr"
      and sorted: "sortByName env arr = Returns (elems (field out ''competitions''))"
    by blast
  let ?cs = "competitions st" and ?ms = "matches st"
  note cinv = groupMarkets_competitions [OF st]
  note d = competitionsInv_distinct [OF cinv]
  have shape: "\<exists>cid cname ids. c = competitionOf cid cname ids \<and> toStringE env cid = Returns ck"
    if "(ck, c) \<in> set ?cs" for ck c
  proof -
    from map_of_is_SomeI [OF d that] have look: "map_of ?cs ck = Some c" .
    with cinv obtain x ids where c: "c = competitionOf (competitionIdOf x) (competitionNameOf x) ids"
      by (rule competitionsInv_entry)
    with look competitionsInv_shape(1) [OF cinv] show ?thesis by blast
  qed
  have "\<forall>p \<in> set ?cs. ?h (snd p) = fst p"
  proof
    fix p
    assume "p \<in> set ?cs"
    then have "(fst p, snd p) \<in> set ?cs" by simp
    from shape [OF this] show "?h (snd p) = fst p" by (auto simp add: keyOf_def)
  qed
  with d have own: "distinct (map ?h (ownValues ?cs))" by (rule ownValues_keys)
  have "list_all2 (\<lambda>c c'. ?h c' = ?h c) (ownValues ?cs) arr"
  proof (rule list.rel_mono_strong [OF mapE_all2 [OF arr]])
    fix c c'
    assume c: "c \<in> set (ownValues ?cs)" and entry: "competitionEntry env ?ms c = Returns c'"
    from c obtain ck where "(ck, c) \<in> set ?cs" by (auto simp add: set_ownValues)
    from shape [OF this] obtain cid cname ids where "c = competitionOf cid cname ids" by blast
    with entry competitionEntry_competitionOf [of env ?ms cid cname ids c']
    show "?h c' = ?h c" by simp
  qed
  then have "map ?h arr = map ?h (ownValues ?cs)" by (rule list_all2_same_image)
  with own have "distinct (map ?h arr)" by simp
  from distinct_map_sortByName [OF sorted this] show ?thesis by (simp add: competitionsOf_def)
qed

lemma success_sportBody:
  assumes "transformSportData env data sportName = Returns out"
    and "field out ''success'' = JBool True"
  shows "sportBody env data sportName = Returns out"
proof (rule ccontr)
  assume "sportBody env data sportName \<noteq> Returns out"
  with transformSportData_cases [OF assms(1)] obtain msg where "out = failure msg sportName" by blast
  with assms(2) show False by (simp add: failure_def)
qed


text \<open>
  C3, as the code has it. A match is built from the first record of its event, and it is
  listed when it is built, under the competition whose id that record carries, provided
  that competition is registered by then: by that record or by a record before it (of any
  event) that carries the id together with a name. In a successful payload, for every event
  with first record \<open>r\<close> and match \<open>M\<close>:
  if \<open>r\<close> carries a competition id and a competition name, \<open>M\<close> is listed under exactly one
  competition; if \<open>r\<close> carries no competition id, \<open>M\<close> is listed under none; if \<open>r\<close>
  carries a competition id, \<open>M\<close> is listed exactly when \<open>r\<close> or a record before it
  registers that id;
  in every case \<open>M\<close> is listed under at most one competition, whose id names the same key as
  the competition id of \<open>r\<close>; when \<open>r\<close> has no competition at all, the competition fields
  of \<open>M\<close> are \<^verbatim>\<open>undefined\<close>. Every list of matches is free of repetitions and holds only
  matches of events of the payload, the competitions have pairwise different ids, and
  \<open>matchCount\<close> is the number of events, listed or not. The competitions of the payload are
  those that some record registers, first record of its event or not, each with the id and
  the name of the first record that registers it: a competition that only later records of
  events name is in the list, with no match of those events under it.
\<close>

theorem match_listed_by_first_record:
  assumes "transformSportData env data sportName = Returns out"
    and "field out ''success'' = JBool True"
  shows
    "(\<forall>k r. firstRecord env k (elems (field data ''result'')) = Some r \<longrightarrow>
        (truthy (competitionIdOf r) \<and> truthy (competitionNameOf r) \<longrightarrow>
          (\<exists>!c. c \<in> set (competitionsOf out)
                \<and> matchOf env sportName r (marketsOf env k (elems (field data ''result'')))
                    \<in> set (listedMatches c)))
        \<and> (\<not> truthy (competitionIdOf r) \<longrightarrow>
             \<not> (\<exists>c \<in> set (competitionsOf out).
                   matchOf env sportName r (marketsOf env k (elems (field data ''result'')))
                     \<in> set (listedMatches c)))
        \<and> (truthy (competitionIdOf r) \<longrightarrow>
             ((\<exists>c \<in> set (competitionsOf out).
                   matchOf env sportName r (marketsOf env k (elems (field data ''result'')))
                     \<in> set (listedMatches c))
              \<longleftrightarrow> (\<exists>x \<in> set (recordsBefore env k (elems (field data ''result'')) @ [r]).
                      registers env x = Some (keyOf env (competitionIdOf r)))))
        \<and> (\<forall>c \<in> set (competitionsOf out). \<forall>d \<in> set (competitionsOf out).
             matchOf env sportName r (marketsOf env k (elems (field data ''result''))) \<in> set (listedMatches c)
             \<and> matchOf env sportName r (marketsOf env k (elems (field data ''result''))) \<in> set (listedMatches d)
             \<longrightarrow> c = d)
        \<and> (\<forall>c \<in> set (competitionsOf out).
             matchOf env sportName r (marketsOf env k (elems (field data ''result''))) \<in> set (listedMatches c)
             \<longrightarrow> truthy (competitionIdOf r)
                 \<and> toStringE env (field c ''id'') = toStringE env (competitionIdOf r))
        \<and> (nullish (field r ''competition'') \<longrightarrow>
             field (matchOf env sportName r (marketsOf env k (elems (field data ''result''))))
               ''competitionId'' = JUndefined
             \<and> field (matchOf env sportName r (marketsOf env k (elems (field data ''result''))))
               ''competition'' = JUndefined))
     \<and> (\<forall>c \<in> set (competitionsOf out).
          distinct (listedMatches c)
          \<and> (\<forall>m \<in> set (listedMatches c).
                \<exists>k' r'. firstRecord env k' (elems (field data ''result'')) = Some r'
                  \<and> m = matchOf env sportName r' (marketsOf env k' (elems (field data ''result'')))))
     \<and> distinct (map (\<lambda>c. keyOf env (field c ''id'')) (competitionsOf out))
     \<and> field out ''matchCount''
         = JNum (of_nat (length (remdups (List.map_filter (eventKey env) (elems (field data ''result''))))))
     \<and> (\<forall>c \<in> set (competitionsOf out).
          \<exists>x. firstRegistrar env (keyOf env (field c ''id'')) (elems (field data ''result'')) = Some x
            \<and> c = competitionOf (competitionIdOf x) (competitionNameOf x) (listedMatches c))
     \<and> (\<forall>ck x. firstRegistrar env ck (elems (field data ''result'')) = Some x \<longrightarrow>
          (\<exists>c \<in> set (competitionsOf out).
             c = competitionOf (competitionIdOf x) (competitionNameOf x) (listedMatches c)))"
proof -
  let ?records = "elems (field data ''result'')"
  from success_sportBody [OF assms(1,2)] obtain st
    where st: "groupMarkets env sportName (field data ''result'') = Returns st"
      and count: "field out ''matchCount'' = JNum (of_nat (length (matches st)))"
      and comps: "\<forall>c'. c' \<in> set (competitionsOf out) \<longleftrightarrow>
        (\<exists>ck cid cname ids. map_of (competitions st) ck = Some (competitionOf cid cname ids)
           \<and> c' = competitionOf cid cname (map (\<lambda>e. tableGet (matches st) (keyOf env e)) ids))"
    by (rule sportBody_listing)
  let ?g = "\<lambda>e. tableGet (matches st) (keyOf env e)"
  note minv = groupMarkets_matches [OF st]
  note cinv = groupMarkets_competitions [OF st]
  have perEvent:
     "(truthy (competitionIdOf r) \<and> truthy (competitionNameOf r) \<longrightarrow>
          (\<exists>!c. c \<in> set (competitionsOf out)
                \<and> matchOf env sportName r (marketsOf env k ?records) \<in> set (listedMatches c)))
        \<and> (\<not> truthy (competitionIdOf r) \<longrightarrow>
             \<not> (\<exists>c \<in> set (competitionsOf out).
                   matchOf env sportName r (marketsOf env k ?records) \<in> set (listedMatches c)))
        \<and> (truthy (competitionIdOf r) \<longrightarrow>
             ((\<exists>c \<in> set (competitionsOf out).
                   matchOf env sportName r (marketsOf env k ?records) \<in> set (listedMatches c))
              \<longleftrightarrow> (\<exists>x \<in> set (recordsBefore env k ?records @ [r]).
                      registers env x = Some (keyOf env (competitionIdOf r)))))
        \<and> (\<forall>c \<in> set (competitionsOf out). \<forall>d \<in> set (competitionsOf out).
             matchOf env sportName r (marketsOf env k ?records) \<in> set (listedMatches c)
             \<and> matchOf env sportName r (marketsOf env k ?records) \<in> set (listedMatches d)
             \<longrightarrow> c = d)
        \<and> (\<forall>c \<in> set (competitionsOf out).
             matchOf env sportName r (marketsOf env k ?records) \<in> set (listedMatches c)
             \<longrightarrow> truthy (competitionIdOf r)
                 \<and> toStringE env (field c ''id'') = toStringE env (competitionIdOf r))
        \<and> (nullish (field r ''competition'') \<longrightarrow>
             field (matchOf env sportName r (marketsOf env k ?records)) ''competitionId'' = JUndefined
             \<and> field (matchOf env sportName r (marketsOf env k ?records)) ''competition'' = JUndefined)"
    if first: "firstRecord env k ?records = Some r" for k r
  proof -
    let ?M = "matchOf env sportName r (marketsOf env k ?records)"
    have here: "?g (eventIdOf r) = ?M"
      using matchesInv_tableGet [OF minv first] keyOf_eventKey [OF firstRecord_Some_key [OF first]]
      by simp
    have listed: "truthy (competitionIdOf r) \<and> toStringE env (competitionIdOf r) = Returns ck
        \<and> toStringE env cid = Returns ck \<and> eventIdOf r \<in> set ids"
      if "map_of (competitions st) ck = Some (competitionOf cid cname ids)" "?M \<in> set (map ?g ids)"
      for ck cid cname ids
      using listed_first_record [OF minv cinv first that] competitionsInv_shape(1) [OF cinv that(1)]
      by simp
    have atmost: "c = d"
      if c: "c \<in> set (competitionsOf out)" "?M \<in> set (listedMatches c)"
        and d: "d \<in> set (competitionsOf out)" "?M \<in> set (listedMatches d)"
      for c d
    proof -
      from c(1) comps obtain ck cid cname ids
        where lc: "map_of (competitions st) ck = Some (competitionOf cid cname ids)"
          and sc: "c = competitionOf cid cname (map ?g ids)"
        by blast
      from d(1) comps obtain dk did dname dids
        where ld: "map_of (competitions st) dk = Some (competitionOf did dname dids)"
          and sd: "d = competitionOf did dname (map ?g dids)"
        by blast
      from c(2) sc have "?M \<in> set (map ?g ids)" by simp
      from listed [OF lc this] have kc: "toStringE env (competitionIdOf r) = Returns ck" by simp
      from d(2) sd have "?M \<in> set (map ?g dids)" by simp
      from listed [OF ld this] have "toStringE env (competitionIdOf r) = Returns dk" by simp
      with kc have "ck = dk" by simp
      with lc ld have "cid = did \<and> cname = dname \<and> ids = dids" by simp
      with sc sd show ?thesis by simp
    qed
    have joins: "(\<exists>c \<in> set (competitionsOf out). ?M \<in> set (listedMatches c))
              \<longleftrightarrow> (\<exists>x \<in> set (recordsBefore env k ?records @ [r]).
                      registers env x = Some (keyOf env (competitionIdOf r)))"
      if t: "truthy (competitionIdOf r)"
    proof -
      from competitionsInv_first [OF cinv first t] obtain ck
        where ck: "toStringE env (competitionIdOf r) = Returns ck"
          and iff: "joined (competitions st) ck (eventIdOf r)
                    \<longleftrightarrow> (\<exists>x \<in> set (recordsBefore env k ?records @ [r]). registers env x = Some ck)"
        by blast
      from ck have key: "keyOf env (competitionIdOf r) = ck" by (simp add: keyOf_def)
      have "(\<exists>c \<in> set (competitionsOf out). ?M \<in> set (listedMatches c))
            \<longleftrightarrow> joined (competitions st) ck (eventIdOf r)"
      proof
        assume "\<exists>c \<in> set (competitionsOf out). ?M \<in> set (listedMatches c)"
        then obtain c where c: "c \<in> set (competitionsOf out)" "?M \<in> set (listedMatches c)" by blast
        from c(1) comps obtain ck' cid cname ids
          where lc: "map_of (competitions st) ck' = Some (competitionOf cid cname ids)"
            and sc: "c = competitionOf cid cname (map ?g ids)"
          by blast
        from c(2) sc have "?M \<in> set (map ?g ids)" by simp
        from listed [OF lc this] ck have "ck' = ck" "eventIdOf r \<in> set ids" by simp_all
        with lc show "joined (competitions st) ck (eventIdOf r)" by (simp add: joined_def)
      next
        assume "joined (competitions st) ck (eventIdOf r)"
        then obtain c where look: "map_of (competitions st) ck = Some c"
          and e: "eventIdOf r \<in> set (elems (field c ''matches''))"
          by (auto simp add: joined_def split: option.splits)
        from cinv look obtain x ids
          where shape: "c = competitionOf (competitionIdOf x) (competitionNameOf x) ids"
          by (rule competitionsInv_entry)
        with e have mem: "eventIdOf r \<in> set ids" by simp
        from look shape comps
        have "competitionOf (competitionIdOf x) (competitionNameOf x) (map ?g ids)
              \<in> set (competitionsOf out)"
          by blast
        moreover from mem here
        have "?M \<in> set (listedMatches (competitionOf (competitionIdOf x) (competitionNameOf x) (map ?g ids)))"
          by (simp add: image_iff) metis
        ultimately show "\<exists>c \<in> set (competitionsOf out). ?M \<in> set (listedMatches c)" by blast
      qed
      with iff key show ?thesis by simp
    qed
    have exists: "\<exists>c. c \<in> set (competitionsOf out) \<and> ?M \<in> set (listedMatches c)"
      if t: "truthy (competitionIdOf r)" "truthy (competitionNameOf r)"
    proof -
      from competitionsInv_first [OF cinv first t(1)] obtain ck
        where ck: "toStringE env (competitionIdOf r) = Returns ck" "\<not> truthy (objectPrototype ck)"
        by blast
      from firstRecord_Some_key [OF first] t ck have "registers env r = Some ck"
        by (simp add: registers_Some eventKey_Some)
      moreover from ck have "keyOf env (competitionIdOf r) = ck" by (simp add: keyOf_def)
      ultimately show ?thesis using joins [OF t(1)] by auto
    qed
    have one: "truthy (competitionIdOf r) \<and> truthy (competitionNameOf r) \<longrightarrow>
          (\<exists>!c. c \<in> set (competitionsOf out) \<and> ?M \<in> set (listedMatches c))"
      using exists atmost by blast
    have ident: "truthy (competitionIdOf r)
                \<and> toStringE env (field c ''id'') = toStringE env (competitionIdOf r)"
      if c: "c \<in> set (competitionsOf out)" "?M \<in> set (listedMatches c)" for c
    proof -
      from c(1) comps obtain ck cid cname ids
        where lc: "map_of (competitions st) ck = Some (competitionOf cid cname ids)"
          and sc: "c = competitionOf cid cname (map ?g ids)"
        by blast
      from c(2) sc have "?M \<in> set (map ?g ids)" by simp
      from listed [OF lc this] sc show ?thesis by simp
    qed
    have none: "\<not> truthy (competitionIdOf r) \<longrightarrow>
            \<not> (\<exists>c \<in> set (competitionsOf out). ?M \<in> set (listedMatches c))"
      using ident by blast
    have fields: "nullish (field r ''competition'') \<longrightarrow>
            field ?M ''competitionId'' = JUndefined \<and> field ?M ''competition'' = JUndefined"
      by (simp add: matchOf_def competitionIdOf_def competitionNameOf_def optField_def)
    from one none joins atmost ident fields show ?thesis by blast
  qed
  have lists: "distinct (listedMatches c)
          \<and> (\<forall>m \<in> set (listedMatches c).
                \<exists>k' r'. firstRecord env k' ?records = Some r'
                  \<and> m = matchOf env sportName r' (marketsOf env k' ?records))"
    if c: "c \<in> set (competitionsOf out)" for c
  proof -
    from c comps obtain ck cid cname ids
      where lc: "map_of (competitions st) ck = Some (competitionOf cid cname ids)"
        and sc: "c = competitionOf cid cname (map ?g ids)"
      by blast
    from distinct_listed [OF minv cinv lc] sc have "distinct (listedMatches c)" by simp
    moreover have "\<exists>k' r'. firstRecord env k' ?records = Some r'
                  \<and> m = matchOf env sportName r' (marketsOf env k' ?records)"
      if "m \<in> set (listedMatches c)" for m
    proof -
      from that sc have "m \<in> set (map ?g ids)" by simp
      with minv cinv lc obtain r'
        where "firstRecord env (keyOf env (eventIdOf r')) ?records = Some r'"
          "m = matchOf env sportName r' (marketsOf env (keyOf env (eventIdOf r')) ?records)"
        by (rule listed_match)
      then show ?thesis by blast
    qed
    ultimately show ?thesis by blast
  qed
  have counted: "field out ''matchCount''
         = JNum (of_nat (length (remdups (List.map_filter (eventKey env) ?records))))"
    using count matchesInv_count [OF minv] by simp
  note different = sportBody_distinct [OF success_sportBody [OF assms(1,2)]]
  have registered: "\<exists>x. firstRegistrar env (keyOf env (field c ''id'')) ?records = Some x
            \<and> c = competitionOf (competitionIdOf x) (competitionNameOf x) (listedMatches c)"
    if c: "c \<in> set (competitionsOf out)" for c
  proof -
    from c comps obtain ck cid cname ids
      where lc: "map_of (competitions st) ck = Some (competitionOf cid cname ids)"
        and sc: "c = competitionOf cid cname (map ?g ids)"
      by blast
    from competitionsInv_shape(1,4) [OF cinv lc] obtain x
      where "toStringE env cid = Returns ck" "firstRegistrar env ck ?records = Some x"
        "cid = competitionIdOf x" "cname = competitionNameOf x"
      by blast
    with sc show ?thesis by (simp add: keyOf_def)
  qed
  have entries: "\<exists>c \<in> set (competitionsOf out).
             c = competitionOf (competitionIdOf x) (competitionNameOf x) (listedMatches c)"
    if reg: "firstRegistrar env ck ?records = Some x" for ck x
  proof (cases "map_of (competitions st) ck")
    case None
    from competitionsInv_absent [OF cinv None] reg show ?thesis by simp
  next
    case (Some c)
    with cinv obtain x' ids where "firstRegistrar env ck (?records @ []) = Some x'"
      and shape: "c = competitionOf (competitionIdOf x') (competitionNameOf x') ids"
      by (rule competitionsInv_entry)
    with reg have "x' = x" by simp
    with Some shape comps
    have "competitionOf (competitionIdOf x) (competitionNameOf x) (map ?g ids) \<in> set (competitionsOf out)"
      by blast
    then show ?thesis
      by (rule_tac x = "competitionOf (competitionIdOf x) (competitionNameOf x) (map ?g ids)" in bexI)
        simp_all
  qed
  from perEvent lists different counted registered entries show ?thesis by blast
qed


lemma cricket_first_records:
  "firstRecord samplePlatform ''E3'' (elems (field cricketPayload ''result''))
   = Some (elems (field cricketPayload ''result'') ! 4)"
  "firstRecord samplePlatform ''E2'' (elems (field cricketPayload ''result''))
   = Some (elems (field cricketPayload ''result'') ! 2)"
  by (simp_all add: firstRecord_def cricketPayload_def eventKey_def eventIdOf_def objectPrototype_def)

lemma cricket_competition_fields:
  "truthy (competitionIdOf (elems (field cricketPayload ''result'') ! 4))"
  "truthy (competitionNameOf (elems (field cricketPayload ''result'') ! 4))"
  "\<not> truthy (competitionIdOf (elems (field cricketPayload ''result'') ! 2))"
  "eventIdOf (elems (field cricketPayload ''result'') ! 3) = JStr ''E2''"
  "competitionIdOf (elems (field cricketPayload ''result'') ! 3) = JStr ''C1''"
  "competitionNameOf (elems (field cricketPayload ''result'') ! 3) = JStr ''alpha Cup''"
  "keyOf samplePlatform (competitionIdOf (elems (field cricketPayload ''result'') ! 4)) = ''C1''"
  "toStringE samplePlatform (competitionIdOf (elems (field cricketPayload ''result'') ! 4)) = Returns ''C1''"
  "nullish (field (elems (field cricketPayload ''result'') ! 2) ''competition'')"
  by (simp_all add: cricketPayload_def eventIdOf_def competitionIdOf_def competitionNameOf_def
      optField_def keyOf_def)

lemma cricket_first_registrar:
  "firstRegistrar samplePlatform ''C1'' (elems (field cricketPayload ''result''))
   = Some (elems (field cricketPayload ''result'') ! 3)"
  by (simp add: firstRegistrar_def registers_def cricketPayload_def eventIdOf_def competitionIdOf_def
      competitionNameOf_def optField_def objectPrototype_def)

lemma groupMarkets_late:
  "groupMarkets samplePlatform ''cricket'' (field latePayload ''result'')
   = Returns \<lparr>matches =
        [(''E1'', matchObject ''E1'' JUndefined JUndefined
                    [transformedRecord ''Match Odds'', transformedRecord ''Tied Match''])],
      competitions =
        [(''C9'', JObj [(''id'', JStr ''C9''), (''name'', JStr ''Late Cup''), (''matches'', JArr [])])]\<rparr>"
  by (simp add: latePayload_def groupMarkets_def processMarket_def storeCompetition_def
      createMatch_def addToCompetition_def addMarket_def pushTo_def bindE_def optField_def
      startTimeE_def
      tableGet_def objectPrototype_def orElse_def Let_def matchObject_def
      transformMarket_named transformMarket_no_runners)

lemma transformSportData_late:
  "transformSportData samplePlatform latePayload ''cricket''
   = Returns (JObj
       [(''success'', JBool True),
        (''sport'', JStr ''cricket''),
        (''competitions'', JArr
           [JObj [(''id'', JStr ''C9''), (''name'', JStr ''Late Cup''), (''matches'', JArr [])]]),
        (''matchCount'', JNum 1),
        (''timestamp'', JNum 1500)])"
proof -
  have guard: "truthy latePayload" "truthy (field latePayload ''result'')"
    by (simp_all add: latePayload_def)
  have "sportBody samplePlatform latePayload ''cricket'' = Returns (JObj
       [(''success'', JBool True),
        (''sport'', JStr ''cricket''),
        (''competitions'', JArr
           [JObj [(''id'', JStr ''C9''), (''name'', JStr ''Late Cup''), (''matches'', JArr [])]]),
        (''matchCount'', JNum 1),
        (''timestamp'', JNum 1500)])"
    by (simp add: sportBody_def groupMarkets_late bindE_def ownValues_def isArrayIndex_def
        digitOf_def competitionEntry_def tableGet_def sortByName_def samplePlatform_fields)
  with guard show ?thesis by (simp add: transformSportData_def)
qed

text \<open>
  C3 as stated fails. In the payload of one event whose second record alone names a
  competition, the competition is in the list and the match is not under it: the match is
  counted and is in no competition of the payload. The same in the example payload, whose
  fourth record carries the competition C1 for the event E2: the match of E2 is counted,
  and C1 lists the match of E3 only.
\<close>

theorem later_competition_leaves_match_unlisted:
  "map eventIdOf (elems (field latePayload ''result'')) = [JStr ''E1'', JStr ''E1'']
   \<and> map competitionIdOf (elems (field latePayload ''result'')) = [JUndefined, JStr ''C9'']
   \<and> map competitionNameOf (elems (field latePayload ''result'')) = [JUndefined, JStr ''Late Cup'']
   \<and> competitionsOf (resultOf (transformSportData samplePlatform latePayload ''cricket''))
       = [competitionOf (JStr ''C9'') (JStr ''Late Cup'') []]
   \<and> field (resultOf (transformSportData samplePlatform latePayload ''cricket'')) ''matchCount''
       = JNum 1
   \<and> eventIdOf (elems (field cricketPayload ''result'') ! 3) = JStr ''E2''
   \<and> competitionIdOf (elems (field cricketPayload ''result'') ! 3) = JStr ''C1''
   \<and> competitionNameOf (elems (field cricketPayload ''result'') ! 3) = JStr ''alpha Cup''
   \<and> map (\<lambda>c. map (\<lambda>m. field m ''id'') (listedMatches c))
         (competitionsOf (resultOf (transformSportData samplePlatform cricketPayload ''cricket'')))
       = [[JStr ''E3''], [JStr ''E1'']]
   \<and> field (resultOf (transformSportData samplePlatform cricketPayload ''cricket'')) ''matchCount''
       = JNum 3"
proof -
  have "map eventIdOf (elems (field latePayload ''result'')) = [JStr ''E1'', JStr ''E1'']"
    and "map competitionIdOf (elems (field latePayload ''result'')) = [JUndefined, JStr ''C9'']"
    and "map competitionNameOf (elems (field latePayload ''result'')) = [JUndefined, JStr ''Late Cup'']"
    by (simp_all add: latePayload_def eventIdOf_def competitionIdOf_def competitionNameOf_def
        optField_def)
  moreover have "competitionsOf (resultOf (transformSportData samplePlatform latePayload ''cricket''))
       = [competitionOf (JStr ''C9'') (JStr ''Late Cup'') []]"
    and "field (resultOf (transformSportData samplePlatform latePayload ''cricket'')) ''matchCount''
       = JNum 1"
    by (simp_all add: transformSportData_late resultOf_def competitionsOf_def competitionOf_def)
  moreover have "map (\<lambda>c. map (\<lambda>m. field m ''id'') (listedMatches c))
         (competitionsOf (resultOf (transformSportData samplePlatform cricketPayload ''cricket'')))
       = [[JStr ''E3''], [JStr ''E1'']]"
    and "field (resultOf (transformSportData samplePlatform cricketPayload ''cricket'')) ''matchCount''
       = JNum 3"
    by (simp_all add: transformSportData_cricket_result competitionsOf_def listedMatches_def
        matchObject_def)
  ultimately show ?thesis using cricket_competition_fields(4-6) by simp
qed

theorem match_listed_by_first_record_witness:
  "(\<exists>!c. c \<in> set (competitionsOf (resultOf (transformSportData samplePlatform cricketPayload ''cricket'')))
          \<and> matchOf samplePlatform ''cricket'' (elems (field cricketPayload ''result'') ! 4)
                (marketsOf samplePlatform ''E3'' (elems (field cricketPayload ''result'')))
              \<in> set (listedMatches c))
   \<and> \<not> (\<exists>c \<in> set (competitionsOf (resultOf (transformSportData samplePlatform cricketPayload ''cricket''))).
            matchOf samplePlatform ''cricket'' (elems (field cricketPayload ''result'') ! 2)
                (marketsOf samplePlatform ''E2'' (elems (field cricketPayload ''result'')))
              \<in> set (listedMatches c))
   \<and> (\<exists>x \<in> set (recordsBefore samplePlatform ''E3'' (elems (field cricketPayload ''result''))
                   @ [elems (field cricketPayload ''result'') ! 4]).
          registers samplePlatform x = Some ''C1'')
   \<and> (\<exists>c \<in> set (competitionsOf (resultOf (transformSportData samplePlatform cricketPayload ''cricket''))).
          c = competitionOf (JStr ''C1'') (JStr ''alpha Cup'') (listedMatches c)
          \<and> distinct (listedMatches c))
   \<and> (\<exists>c \<in> set (competitionsOf (resultOf (transformSportData samplePlatform cricketPayload ''cricket''))).
          matchOf samplePlatform ''cricket'' (elems (field cricketPayload ''result'') ! 4)
                (marketsOf samplePlatform ''E3'' (elems (field cricketPayload ''result'')))
              \<in> set (listedMatches c)
          \<and> toStringE samplePlatform (field c ''id'') = Returns ''C1'')
   \<and> field (matchOf samplePlatform ''cricket'' (elems (field cricketPayload ''result'') ! 2)
                (marketsOf samplePlatform ''E2'' (elems (field cricketPayload ''result''))))
         ''competitionId'' = JUndefined
   \<and> distinct (map (\<lambda>c. keyOf samplePlatform (field c ''id''))
         (competitionsOf (resultOf (transformSportData samplePlatform cricketPayload ''cricket''))))
   \<and> field (resultOf (transformSportData samplePlatform cricketPayload ''cricket'')) ''matchCount''
       = JNum (of_nat (length (remdups (List.map_filter (eventKey samplePlatform)
                                          (elems (field cricketPayload ''result''))))))"
proof -
  let ?out = "resultOf (transformSportData samplePlatform cricketPayload ''cricket'')"
  let ?records = "elems (field cricketPayload ''result'')"
  have ret: "transformSportData samplePlatform cricketPayload ''cricket'' = Returns ?out"
    by (simp add: transformSportData_cricket resultOf_def)
  have success: "field ?out ''success'' = JBool True"
    by (simp add: transformSportData_cricket_result)
  note all = match_listed_by_first_record [OF ret success]
  note third = all [THEN conjunct1, rule_format, OF cricket_first_records(1)]
  note second = all [THEN conjunct1, rule_format, OF cricket_first_records(2)]
  from third [THEN conjunct1] cricket_competition_fields(1,2)
  have one: "\<exists>!c. c \<in> set (competitionsOf ?out)
          \<and> matchOf samplePlatform ''cricket'' (?records ! 4) (marketsOf samplePlatform ''E3'' ?records)
              \<in> set (listedMatches c)"
    by blast
  from second [THEN conjunct2, THEN conjunct1] cricket_competition_fields(3)
  have none: "\<not> (\<exists>c \<in> set (competitionsOf ?out).
            matchOf samplePlatform ''cricket'' (?records ! 2) (marketsOf samplePlatform ''E2'' ?records)
              \<in> set (listedMatches c))"
    by blast
  from third [THEN conjunct2, THEN conjunct2, THEN conjunct1] cricket_competition_fields(1,7) one
  have before: "\<exists>x \<in> set (recordsBefore samplePlatform ''E3'' ?records @ [?records ! 4]).
          registers samplePlatform x = Some ''C1''"
    by auto
  from all [THEN conjunct2, THEN conjunct2, THEN conjunct2, THEN conjunct2, THEN conjunct2,
      rule_format, OF cricket_first_registrar] cricket_competition_fields(5,6)
  have "\<exists>c \<in> set (competitionsOf ?out).
          c = competitionOf (JStr ''C1'') (JStr ''alpha Cup'') (listedMatches c)"
    by simp
  moreover from all
  have "\<forall>c \<in> set (competitionsOf ?out).
          distinct (listedMatches c)
          \<and> (\<forall>m \<in> set (listedMatches c).
                \<exists>k' r'. firstRecord samplePlatform k' ?records = Some r'
                  \<and> m = matchOf samplePlatform ''cricket'' r' (marketsOf samplePlatform k' ?records))"
    by (rule conjunct2 [THEN conjunct1])
  ultimately have entry: "\<exists>c \<in> set (competitionsOf ?out).
          c = competitionOf (JStr ''C1'') (JStr ''alpha Cup'') (listedMatches c)
          \<and> distinct (listedMatches c)"
    by blast
  from third [THEN conjunct2, THEN conjunct2, THEN conjunct2, THEN conjunct2, THEN conjunct1] one
    cricket_competition_fields(8)
  have ident: "\<exists>c \<in> set (competitionsOf ?out).
          matchOf samplePlatform ''cricket'' (?records ! 4) (marketsOf samplePlatform ''E3'' ?records)
              \<in> set (listedMatches c)
          \<and> toStringE samplePlatform (field c ''id'') = Returns ''C1''"
    by auto
  from second [THEN conjunct2, THEN conjunct2, THEN conjunct2, THEN conjunct2, THEN conjunct2]
    cricket_competition_fields(9)
  have fields: "field (matchOf samplePlatform ''cricket'' (?records ! 2)
                  (marketsOf samplePlatform ''E2'' ?records)) ''competitionId'' = JUndefined"
    by blast
  from all
  have different: "distinct (map (\<lambda>c. keyOf samplePlatform (field c ''id'')) (competitionsOf ?out))"
    by (rule conjunct2 [THEN conjunct2, THEN conjunct1])
  from all
  have "field ?out ''matchCount''
       = JNum (of_nat (length (remdups (List.map_filter (eventKey samplePlatform) ?records))))"
    by (rule conjunct2 [THEN conjunct2, THEN conjunct2, THEN conjunct1])
  with one none before entry ident fields different show ?thesis by blast
qed


section \<open>Records without runners\<close>

subsection \<open>The loop returns\<close>

lemma regularKey_cases:
  assumes "regularKey env v"
  obtains key where "toStringE env v = Returns key" "\<not> truthy (objectPrototype key)"
  using assms by (cases "toStringE env v") (simp_all add: regularKey_def)

lemma storeCompetition_returns:
  assumes "truthy cid \<and> truthy cname \<longrightarrow> regularKey env cid"
  shows "\<exists>st'. storeCompetition env cid cname st = Returns st'"
proof (cases "truthy cid \<and> truthy cname")
  case False
  then show ?thesis by (auto simp add: storeCompetition_def)
next
  case True
  with assms obtain key where "toStringE env cid = Returns key" by (auto elim: regularKey_cases)
  with True show ?thesis by (simp add: storeCompetition_def bindE_def)
qed

lemma addToCompetition_returns:
  assumes inv: "competitionsInv env pre extra (competitions st)"
    and key: "truthy cid \<longrightarrow> regularKey env cid"
  shows "\<exists>st'. addToCompetition env cid eid st = Returns st'"
proof (cases "truthy cid")
  case False
  then show ?thesis by (simp add: addToCompetition_def)
next
  case True
  with key obtain ck where ck: "toStringE env cid = Returns ck" "\<not> truthy (objectPrototype ck)"
    by (auto elim: regularKey_cases)
  show ?thesis
  proof (cases "map_of (competitions st) ck")
    case None
    with ck have "\<not> truthy (tableGet (competitions st) ck)" by (simp add: tableGet_absent)
    with True ck show ?thesis by (simp add: addToCompetition_def bindE_def)
  next
    case (Some c)
    with inv obtain x ids where "c = competitionOf (competitionIdOf x) (competitionNameOf x) ids"
      by (rule competitionsInv_entry)
    with Some have "tableGet (competitions st) ck = competitionOf (competitionIdOf x) (competitionNameOf x) ids"
      by (simp add: tableGet_own)
    with True ck show ?thesis by (simp add: addToCompetition_def bindE_def pushTo_competitionOf)
  qed
qed

lemma createMatch_returns:
  assumes inv: "competitionsInv env pre extra (competitions st)"
    and eid: "regularKey env (eventIdOf r)"
    and start: "startTimeE env (field r ''event'') (field r ''start'') = Returns startTime"
    and key: "truthy (competitionIdOf r) \<longrightarrow> regularKey env (competitionIdOf r)"
  shows "\<exists>st'. createMatch env sportName r (eventIdOf r) (competitionIdOf r) (competitionNameOf r) st
               = Returns st'"
proof -
  from eid obtain k where k: "toStringE env (eventIdOf r) = Returns k" by (rule regularKey_cases)
  show ?thesis
  proof (cases "truthy (tableGet (matches st) k)")
    case True
    with k show ?thesis by (simp add: createMatch_def bindE_def)
  next
    case False
    let ?st = "st\<lparr>matches := tableSet (matches st) k
           (JObj
             [(''id'', eventIdOf r),
              (''name'', field (field r ''event'') ''name''),
              (''venue'', field (field r ''event'') ''venue''),
              (''startTime'', startTime),
              (''inPlay'', orElse (field r ''inPlay'') (JBool False)),
              (''sport'', JStr sportName),
              (''competitionId'', competitionIdOf r),
              (''competition'', competitionNameOf r),
              (''markets'', JArr [])])\<rparr>"
    from inv have "competitionsInv env pre extra (competitions ?st)" by simp
    from addToCompetition_returns [OF this key, of "eventIdOf r"] False k start
    show ?thesis by (simp add: createMatch_def bindE_def)
  qed
qed

lemma addMarket_returns:
  assumes "regularKey env eid"
    and "\<And>key. toStringE env eid = Returns key \<Longrightarrow>
           \<exists>first xs. tableGet (matches st) key = matchOf env sportName first xs"
  shows "\<exists>st'. addMarket env r eid st = Returns st'"
proof -
  obtain tm where tm: "transformMarket r = Returns tm" using transformMarket_returns by blast
  from assms(1) obtain key where key: "toStringE env eid = Returns key" by (rule regularKey_cases)
  from assms(2) [OF key] obtain first xs
    where "tableGet (matches st) key = matchOf env sportName first xs"
    by blast
  with tm key show ?thesis by (simp add: addMarket_def bindE_def pushTo_matchOf)
qed

lemma plainRecord_kept:
  assumes "plainRecord env r" and "truthy (field r ''event'')" and "truthy (eventIdOf r)"
  obtains startTime where "\<not> nullish r" "regularKey env (eventIdOf r)"
    "startTimeE env (field r ''event'') (field r ''start'') = Returns startTime"
    "truthy (competitionIdOf r) \<longrightarrow> regularKey env (competitionIdOf r)"
    "truthy (competitionIdOf r) \<and> truthy (competitionNameOf r)
       \<longrightarrow> (\<exists>s. competitionNameOf r = JStr s)"
proof -
  from assms have "\<not> nullish r" "regularKey env (eventIdOf r)"
    "truthy (competitionIdOf r) \<longrightarrow> regularKey env (competitionIdOf r)"
    by (simp_all add: plainRecord_def)
  moreover from assms obtain startTime
    where "startTimeE env (field r ''event'') (field r ''start'') = Returns startTime"
    by (cases "startTimeE env (field r ''event'') (field r ''start'')") (simp_all add: plainRecord_def)
  moreover from assms have "truthy (competitionIdOf r) \<and> truthy (competitionNameOf r)
       \<longrightarrow> (\<exists>s. competitionNameOf r = JStr s)"
    by (cases "competitionNameOf r") (simp_all add: plainRecord_def)
  ultimately show ?thesis using that by blast
qed

lemma processMarket_returns:
  assumes plain: "plainRecord env r"
    and minv: "matchesInv env sportName pre (matches st)"
    and cinv: "competitionsInv env pre [] (competitions st)"
  shows "\<exists>st'. processMarket env sportName r st = Returns st'"
proof (cases "truthy (field r ''event'') \<and> truthy (eventIdOf r)")
  case False
  with plain show ?thesis by (auto simp add: processMarket_def plainRecord_def eventIdOf_def)
next
  case True
  then have kept: "truthy (field r ''event'')" "truthy (eventIdOf r)" by simp_all
  from plain kept obtain startTime where r: "\<not> nullish r" and eid: "regularKey env (eventIdOf r)"
    and start: "startTimeE env (field r ''event'') (field r ''start'') = Returns startTime"
    and cid: "truthy (competitionIdOf r) \<longrightarrow> regularKey env (competitionIdOf r)"
    by (rule plainRecord_kept)
  from eid obtain key where key: "toStringE env (eventIdOf r) = Returns key"
    "\<not> truthy (objectPrototype key)"
    by (rule regularKey_cases)
  from cid obtain st1
    where s1: "storeCompetition env (competitionIdOf r) (competitionNameOf r) st = Returns st1"
    using storeCompetition_returns [of "competitionIdOf r" "competitionNameOf r" env st] by blast
  from storeCompetition_competitions [OF s1 cinv r kept]
  have mid: "competitionsInv env pre [r] (competitions st1)" and m1: "matches st1 = matches st"
    by simp_all
  from createMatch_returns [OF mid eid start cid] obtain st2
    where s2: "createMatch env sportName r (eventIdOf r) (competitionIdOf r) (competitionNameOf r) st1
               = Returns st2"
    by blast
  have built: "\<exists>first xs. tableGet (matches st2) key = matchOf env sportName first xs"
    using s2
  proof (cases rule: createMatch_cases)
    case (existing key')
    with key have same: "key' = key" by simp
    with existing(2) m1 key(2) matchesInv_lookup [OF minv, of key]
    obtain first where "firstRecord env key pre = Some first" by auto
    from matchesInv_tableGet [OF minv this] existing(3) m1 show ?thesis by auto
  next
    case (created key' startTime')
    with key have same: "key' = key" by simp
    from created(3)
    have "matches st2 = tableSet (matches st1) key' (matchOf env sportName r [])"
      by (cases rule: addToCompetition_cases) simp_all
    with same show ?thesis by (auto simp add: tableGet_tableSet)
  qed
  have "\<exists>first xs. tableGet (matches st2) k = matchOf env sportName first xs"
    if "toStringE env (eventIdOf r) = Returns k" for k
    using that key(1) built by simp
  from addMarket_returns [OF eid this, of r] obtain st'
    where s3: "addMarket env r (eventIdOf r) st2 = Returns st'"
    by blast
  from r kept s1 s2 s3 show ?thesis
    by (simp add: processMarket_def bindE_def Let_def eventIdOf_def competitionIdOf_def
        competitionNameOf_def)
qed

lemma forEachE_returns:
  assumes "\<forall>r \<in> set rs. plainRecord env r"
    and "matchesInv env sportName pre (matches st)"
    and "competitionsInv env pre [] (competitions st)"
  shows "\<exists>st'. forEachE (processMarket env sportName) rs st = Returns st'"
  using assms
proof (induction rs arbitrary: st pre)
  case Nil
  then show ?case by simp
next
  case (Cons r rs)
  from Cons.prems(1) have "plainRecord env r" by simp
  from processMarket_returns [OF this Cons.prems(2,3)] obtain st1
    where one: "processMarket env sportName r st = Returns st1"
    by blast
  from Cons.prems(1) have "\<forall>r \<in> set rs. plainRecord env r" by simp
  from Cons.IH [OF this processMarket_matches [OF one Cons.prems(2)]
      processMarket_competitions [OF one Cons.prems(2,3)]] one
  show ?case by simp
qed

lemma groupMarkets_returns:
  assumes "\<forall>r \<in> set records. plainRecord env r"
  shows "\<exists>st. groupMarkets env sportName (JArr records) = Returns st"
proof -
  have m: "matchesInv env sportName [] (matches \<lparr>matches = [], competitions = []\<rparr>)"
    by (simp add: matchesInv_def firstRecord_def)
  have c: "competitionsInv env [] [] (competitions \<lparr>matches = [], competitions = []\<rparr>)"
    by (simp add: competitionsInv_def firstRecord_def firstRegistrar_def)
  from forEachE_returns [OF assms m c] show ?thesis by (simp add: groupMarkets_def)
qed

lemma mapE_returns:
  assumes "\<forall>x \<in> set xs. \<exists>y. f x = Returns y"
  shows "\<exists>ys. mapE f xs = Returns ys"
  using assms
proof (induction xs)
  case Nil
  then show ?case by simp
next
  case (Cons x xs)
  then obtain y ys where "f x = Returns y" "mapE f xs = Returns ys" by auto
  then show ?case by simp
qed

lemma competitionEntry_returns:
  assumes "\<forall>e \<in> set ids. pushedBy env records ck e"
  shows "\<exists>c'. competitionEntry env ms (competitionOf cid cname ids) = Returns c'"
proof -
  have "\<forall>e \<in> set ids. \<exists>y. bindE (toStringE env e) (\<lambda>key. Returns (tableGet ms key)) = Returns y"
  proof
    fix e
    assume "e \<in> set ids"
    with assms have "pushedBy env records ck e" by simp
    then obtain r where "firstRecord env (keyOf env e) records = Some r" "eventIdOf r = e"
      by (auto simp add: pushedBy_def split: option.splits)
    with firstRecord_Some_key [of env "keyOf env e" records r]
    have "toStringE env e = Returns (keyOf env e)" by (simp add: eventKey_Some)
    then show "\<exists>y. bindE (toStringE env e) (\<lambda>key. Returns (tableGet ms key)) = Returns y"
      by (simp add: bindE_def)
  qed
  from mapE_returns [OF this] show ?thesis by (auto simp add: competitionEntry_def bindE_def)
qed

lemma insertE_returns:
  assumes "\<exists>s. field a ''name'' = JStr s" and "\<forall>b \<in> set bs. \<exists>s. field b ''name'' = JStr s"
  shows "\<exists>cs. insertE env a bs = Returns cs"
  using assms(2)
proof (induction bs)
  case Nil
  then show ?case by simp
next
  case (Cons b bs)
  from assms(1) obtain s where s: "field a ''name'' = JStr s" by blast
  from Cons.prems obtain t where t: "field b ''name'' = JStr t" by auto
  from s t have order: "compareNames env a b = Returns (localeCompare env s t)"
    by (simp add: compareNames_def bindE_def)
  from Cons obtain cs where "insertE env a bs = Returns cs" by auto
  with order show ?case by simp
qed

lemma sortFromE_returns:
  assumes "\<forall>b \<in> set (placed @ xs). \<exists>s. field b ''name'' = JStr s"
  shows "\<exists>ys. sortFromE env placed xs = Returns ys"
  using assms
proof (induction xs arbitrary: placed)
  case Nil
  then show ?case by simp
next
  case (Cons a xs)
  from Cons.prems have "\<exists>s. field a ''name'' = JStr s" "\<forall>b \<in> set placed. \<exists>s. field b ''name'' = JStr s"
    by simp_all
  from insertE_returns [OF this] obtain placed' where p: "insertE env a placed = Returns placed'"
    by blast
  from set_insertE [OF p] Cons.prems have "\<forall>b \<in> set (placed' @ xs). \<exists>s. field b ''name'' = JStr s"
    by auto
  from Cons.IH [OF this] p show ?case by simp
qed

lemma sortByName_returns:
  "\<forall>b \<in> set xs. \<exists>s. field b ''name'' = JStr s \<Longrightarrow> \<exists>ys. sortByName env xs = Returns ys"
  using sortFromE_returns [of "[]" xs env] by (simp add: sortByName_def)

lemma sportBody_returns:
  assumes result: "field data ''result'' = JArr records"
    and plain: "\<forall>r \<in> set records. plainRecord env r"
  shows "\<exists>out. sportBody env data sportName = Returns out \<and> field out ''success'' = JBool True"
proof -
  from groupMarkets_returns [OF plain] result obtain st
    where st: "groupMarkets env sportName (field data ''result'') = Returns st"
    by auto
  let ?cs = "competitions st" and ?ms = "matches st"
  from groupMarkets_competitions [OF st] result
  have cinv: "competitionsInv env records [] ?cs" by simp
  have shape: "\<exists>ck x ids. x \<in> set records \<and> registers env x = Some ck
                 \<and> c = competitionOf (competitionIdOf x) (competitionNameOf x) ids
                 \<and> (\<forall>e \<in> set ids. pushedBy env records ck e)"
    if "c \<in> set (ownValues ?cs)" for c
  proof -
    from that obtain ck where "(ck, c) \<in> set ?cs" by (auto simp add: set_ownValues)
    from map_of_is_SomeI [OF competitionsInv_distinct [OF cinv] this]
    have "map_of ?cs ck = Some c" .
    with cinv obtain x ids where x: "firstRegistrar env ck (records @ []) = Some x"
      "c = competitionOf (competitionIdOf x) (competitionNameOf x) ids"
      "\<forall>e \<in> set ids. pushedBy env records ck e"
      by (rule competitionsInv_entry)
    from x(1) firstRegistrar_Some [of env ck records x]
    have "x \<in> set records" "registers env x = Some ck" by simp_all
    with x show ?thesis by blast
  qed
  have "\<forall>c \<in> set (ownValues ?cs). \<exists>y. competitionEntry env ?ms c = Returns y"
  proof
    fix c
    assume "c \<in> set (ownValues ?cs)"
    from shape [OF this] obtain ck x ids
      where "c = competitionOf (competitionIdOf x) (competitionNameOf x) ids"
        "\<forall>e \<in> set ids. pushedBy env records ck e"
      by blast
    with competitionEntry_returns [of ids env records ck ?ms]
    show "\<exists>y. competitionEntry env ?ms c = Returns y" by simp
  qed
  from mapE_returns [OF this] obtain arr
    where arr: "mapE (competitionEntry env ?ms) (ownValues ?cs) = Returns arr"
    by blast
  have "\<forall>b \<in> set arr. \<exists>s. field b ''name'' = JStr s"
  proof
    fix b
    assume "b \<in> set arr"
    with arr obtain c where c: "c \<in> set (ownValues ?cs)" "competitionEntry env ?ms c = Returns b"
      by (rule mapE_member)
    from shape [OF c(1)] obtain ck x ids
      where x: "x \<in> set records" "registers env x = Some ck"
        and sc: "c = competitionOf (competitionIdOf x) (competitionNameOf x) ids"
      by blast
    from x(2) have t: "truthy (field x ''event'')" "truthy (eventIdOf x)"
      "truthy (competitionIdOf x)" "truthy (competitionNameOf x)"
      by (simp_all add: registers_Some)
    from plain x(1) have "plainRecord env x" by simp
    from this t(1,2) have "truthy (competitionIdOf x) \<and> truthy (competitionNameOf x)
       \<longrightarrow> (\<exists>s. competitionNameOf x = JStr s)"
      by (rule plainRecord_kept)
    with t(3,4) obtain s where "competitionNameOf x = JStr s" by blast
    moreover from c(2) sc
    have "b = competitionOf (competitionIdOf x) (competitionNameOf x)
                (map (\<lambda>e. tableGet ?ms (keyOf env e)) ids)"
      by (simp add: competitionEntry_competitionOf)
    ultimately show "\<exists>s. field b ''name'' = JStr s" by simp
  qed
  from sortByName_returns [OF this] obtain sorted where "sortByName env arr = Returns sorted"
    by blast
  with st arr show ?thesis by (simp add: sportBody_def bindE_def)
qed


lemma transformSportData_succeeds:
  assumes "truthy data" and "field data ''result'' = JArr records"
    and "\<forall>r \<in> set records. plainRecord env r"
  shows "\<exists>out. transformSportData env data sportName = Returns out \<and> field out ''success'' = JBool True"
proof -
  from sportBody_returns [OF assms(2,3)] obtain out
    where "sportBody env data sportName = Returns out" "field out ''success'' = JBool True"
    by blast
  with assms(1,2) show ?thesis by (simp add: transformSportData_def)
qed

text \<open>
  C8. For a market record with no \<open>runners\<close> field (or a falsy one) \<open>transformMarket\<close>
  returns \<^verbatim>\<open>null\<close>, and the step of the loop that adds the market returns with both tables
  as they were: nothing is thrown and nothing is added. The loop builds a match for every
  event of the payload, from the first record of the event, with or without runners; the
  markets list of the match is the list of the transformed markets of the records of the
  event, in order, without those that are \<^verbatim>\<open>null\<close>: each entry comes from a record that
  has runners. The same holds for every market of every match in the payload
  \<open>transformSportData\<close> returns. On a payload of plain records, with runners or without,
  the loop returns and \<open>transformSportData\<close> returns a success payload, not a failure.
\<close>

theorem markets_without_runners_excluded:
  "(\<not> truthy (field market ''runners'') \<longrightarrow> transformMarket market = Returns JNull)
   \<and> (\<not> truthy (field market ''runners'') \<longrightarrow> addMarket env market eventId tables = Returns tables)
   \<and> (groupMarkets env sportName (field data ''result'') = Returns st \<longrightarrow>
        (\<forall>k. map_of (matches st) k
              = map_option (\<lambda>r. matchOf env sportName r (marketsOf env k (elems (field data ''result''))))
                  (firstRecord env k (elems (field data ''result'')))))
   \<and> (groupMarkets env sportName (field data ''result'') = Returns st \<longrightarrow>
        (\<forall>k m. (k, m) \<in> set (matches st) \<longrightarrow>
           elems (field m ''markets'') = marketsOf env k (elems (field data ''result''))))
   \<and> (\<forall>tm \<in> set (marketsOf env k records).
          tm \<noteq> JNull
          \<and> (\<exists>r \<in> set records. truthy (field r ''runners'') \<and> transformMarket r = Returns tm))
   \<and> (transformSportData env data sportName = Returns out \<longrightarrow>
        (\<forall>c \<in> set (elems (field out ''competitions'')).
           \<forall>m \<in> set (elems (field c ''matches'')).
             \<forall>tm \<in> set (elems (field m ''markets'')).
               tm \<noteq> JNull
               \<and> (\<exists>r \<in> set (elems (field data ''result'')).
                     truthy (field r ''runners'') \<and> transformMarket r = Returns tm)))
   \<and> (truthy data \<and> field data ''result'' = JArr records
        \<and> (\<forall>r \<in> set records. plainRecord env r) \<longrightarrow>
        (\<exists>st. groupMarkets env sportName (field data ''result'') = Returns st)
        \<and> (\<exists>out. transformSportData env data sportName = Returns out
                  \<and> field out ''success'' = JBool True))"
proof -
  have null: "\<not> truthy (field market ''runners'') \<longrightarrow> transformMarket market = Returns JNull"
    by (simp add: transformMarket_def)
  have step: "\<not> truthy (field market ''runners'') \<longrightarrow> addMarket env market eventId tables = Returns tables"
    by (simp add: addMarket_def transformMarket_def bindE_def)
  have built: "groupMarkets env sportName (field data ''result'') = Returns st \<longrightarrow>
        (\<forall>k. map_of (matches st) k
              = map_option (\<lambda>r. matchOf env sportName r (marketsOf env k (elems (field data ''result''))))
                  (firstRecord env k (elems (field data ''result''))))"
    using groupMarkets_matches [of env sportName "field data ''result''" st]
    by (simp add: matchesInv_def)
  have table: "groupMarkets env sportName (field data ''result'') = Returns st \<longrightarrow>
        (\<forall>k m. (k, m) \<in> set (matches st) \<longrightarrow>
           elems (field m ''markets'') = marketsOf env k (elems (field data ''result'')))"
    using groupMarkets_matches matchesInv_markets by blast
  have members: "\<forall>tm \<in> set (marketsOf env k records).
          tm \<noteq> JNull
          \<and> (\<exists>r \<in> set records. truthy (field r ''runners'') \<and> transformMarket r = Returns tm)"
    using marketsOf_member by blast
  have listed: "tm \<noteq> JNull
               \<and> (\<exists>r \<in> set (elems (field data ''result'')).
                     truthy (field r ''runners'') \<and> transformMarket r = Returns tm)"
    if out: "transformSportData env data sportName = Returns out"
      and c: "c \<in> set (elems (field out ''competitions''))"
      and m: "m \<in> set (elems (field c ''matches''))"
      and tm: "tm \<in> set (elems (field m ''markets''))"
    for c m tm
  proof -
    have body: "sportBody env data sportName = Returns out"
    proof (rule ccontr)
      assume "sportBody env data sportName \<noteq> Returns out"
      with transformSportData_cases [OF out] obtain msg where "out = failure msg sportName" by blast
      with c show False by (simp add: failure_def)
    qed
    from sportBody_competitions [OF body] obtain st arr
      where st: "groupMarkets env sportName (field data ''result'') = Returns st"
        and arr: "mapE (competitionEntry env (matches st)) (ownValues (competitions st)) = Returns arr"
        and sorted: "sortByName env arr = Returns (elems (field out ''competitions''))"
      by blast
    from set_sortByName [OF sorted] c have "c \<in> set arr" by simp
    with arr obtain c0 where "competitionEntry env (matches st) c0 = Returns c"
      by (rule mapE_member)
    from this m obtain key where key: "m = tableGet (matches st) key"
      by (rule competitionEntry_matches)
    from tableGet_markets [OF groupMarkets_matches [OF st], of key] key tm
    have "tm \<in> set (marketsOf env key (elems (field data ''result'')))" by auto
    then show ?thesis by (rule marketsOf_member)
  qed
  have returns: "(\<exists>st. groupMarkets env sportName (field data ''result'') = Returns st)
        \<and> (\<exists>out. transformSportData env data sportName = Returns out
                  \<and> field out ''success'' = JBool True)"
    if "truthy data" "field data ''result'' = JArr records" "\<forall>r \<in> set records. plainRecord env r"
    using groupMarkets_returns [OF that(3), of sportName] transformSportData_succeeds [OF that] that(2)
    by simp
  from null step built table members listed returns show ?thesis by blast
qed

lemma cricket_plain: "\<forall>r \<in> set (elems (field cricketPayload ''result'')). plainRecord samplePlatform r"
  by (simp add: cricketPayload_def plainRecord_def regularKey_def eventIdOf_def competitionIdOf_def
      competitionNameOf_def optField_def objectPrototype_def startTimeE_def)

lemma cricket_first_of_E1:
  "firstRecord samplePlatform ''E1'' (elems (field cricketPayload ''result''))
   = Some (elems (field cricketPayload ''result'') ! 0)"
  by (simp add: firstRecord_def cricketPayload_def eventKey_def eventIdOf_def objectPrototype_def)

theorem markets_without_runners_excluded_witness:
  "transformMarket
      (JObj [(''name'', JStr ''Over/Under 1.5''), (''event'', JObj [(''id'', JStr ''E1'')]),
             (''competition'', JObj [(''id'', JStr ''C2''), (''name'', JStr ''Beta League'')])])
     = Returns JNull
   \<and> addMarket samplePlatform
      (JObj [(''name'', JStr ''Over/Under 1.5''), (''event'', JObj [(''id'', JStr ''E1'')]),
             (''competition'', JObj [(''id'', JStr ''C2''), (''name'', JStr ''Beta League'')])])
      (JStr ''E1'') \<lparr>matches = [], competitions = []\<rparr>
     = Returns \<lparr>matches = [], competitions = []\<rparr>
   \<and> JObj [(''name'', JStr ''Over/Under 1.5''), (''event'', JObj [(''id'', JStr ''E1'')]),
            (''competition'', JObj [(''id'', JStr ''C2''), (''name'', JStr ''Beta League'')])]
       \<in> set (elems (field cricketPayload ''result''))
   \<and> (\<exists>st. groupMarkets samplePlatform ''cricket'' (field cricketPayload ''result'') = Returns st
          \<and> map_of (matches st) ''E1''
            = Some (matchOf samplePlatform ''cricket'' (elems (field cricketPayload ''result'') ! 0)
                      [transformedRecord ''Match Odds'']))
   \<and> (\<exists>out. transformSportData samplePlatform cricketPayload ''cricket'' = Returns out
           \<and> field out ''success'' = JBool True)
   \<and> marketsOf samplePlatform ''E1'' (elems (field cricketPayload ''result''))
     = [transformedRecord ''Match Odds'']
   \<and> transformedRecord ''Match Odds'' \<noteq> JNull
   \<and> (\<exists>r \<in> set (elems (field cricketPayload ''result'')).
         truthy (field r ''runners'') \<and> transformMarket r = Returns (transformedRecord ''Match Odds''))"
proof -
  let ?out = "resultOf (transformSportData samplePlatform cricketPayload ''cricket'')"
  let ?records = "elems (field cricketPayload ''result'')"
  let ?runnerless = "JObj [(''name'', JStr ''Over/Under 1.5''), (''event'', JObj [(''id'', JStr ''E1'')]),
             (''competition'', JObj [(''id'', JStr ''C2''), (''name'', JStr ''Beta League'')])]"
  let ?m = "matchObject ''E1'' (JStr ''C2'') (JStr ''Beta League'') [transformedRecord ''Match Odds'']"
  let ?empty = "\<lparr>matches = [], competitions = []\<rparr>"
  let ?st = "\<lparr>matches =
        [(''E1'', matchObject ''E1'' (JStr ''C2'') (JStr ''Beta League'') [transformedRecord ''Match Odds'']),
         (''E2'', matchObject ''E2'' JUndefined JUndefined
                    [transformedRecord ''Match Odds'', transformedRecord ''Tied Match'']),
         (''E3'', matchObject ''E3'' (JStr ''C1'') (JStr ''alpha Cup'') [transformedRecord ''Match Odds''])],
      competitions =
        [(''C2'', JObj [(''id'', JStr ''C2''), (''name'', JStr ''Beta League''), (''matches'', JArr [JStr ''E1''])]),
         (''C1'', JObj [(''id'', JStr ''C1''), (''name'', JStr ''alpha Cup''), (''matches'', JArr [JStr ''E3''])])]\<rparr>"
  note inst = markets_without_runners_excluded [where env=samplePlatform and sportName="''cricket''"
      and data=cricketPayload and market="?runnerless" and k="''E1''"
      and records="?records" and out="?out" and st="?st" and eventId="JStr ''E1''"
      and tables="?empty"]
  have absent: "\<not> truthy (field ?runnerless ''runners'')" by simp
  from inst
  have "\<not> truthy (field ?runnerless ''runners'') \<longrightarrow> transformMarket ?runnerless = Returns JNull"
    by (rule conjunct1)
  with absent have null: "transformMarket ?runnerless = Returns JNull"
    by (rule rev_mp)
  from inst
  have "\<not> truthy (field ?runnerless ''runners'')
        \<longrightarrow> addMarket samplePlatform ?runnerless (JStr ''E1'') ?empty = Returns ?empty"
    by (rule conjunct2 [THEN conjunct1])
  with absent have step: "addMarket samplePlatform ?runnerless (JStr ''E1'') ?empty = Returns ?empty"
    by (rule rev_mp)
  have member: "?runnerless \<in> set ?records"
    by (simp add: cricketPayload_def)
  from inst
  have "groupMarkets samplePlatform ''cricket'' (field cricketPayload ''result'') = Returns ?st \<longrightarrow>
        (\<forall>k m. (k, m) \<in> set (matches ?st) \<longrightarrow>
           elems (field m ''markets'') = marketsOf samplePlatform k ?records)"
    by (rule conjunct2 [THEN conjunct2, THEN conjunct2, THEN conjunct1])
  with groupMarkets_cricket
  have "(''E1'', ?m) \<in> set (matches ?st) \<longrightarrow>
     elems (field ?m ''markets'') = marketsOf samplePlatform ''E1'' ?records"
    by blast
  then have markets: "marketsOf samplePlatform ''E1'' ?records = [transformedRecord ''Match Odds'']"
    by (simp add: matchObject_def)
  from inst
  have "groupMarkets samplePlatform ''cricket'' (field cricketPayload ''result'') = Returns ?st \<longrightarrow>
        (\<forall>k. map_of (matches ?st) k
              = map_option (\<lambda>r. matchOf samplePlatform ''cricket'' r (marketsOf samplePlatform k ?records))
                  (firstRecord samplePlatform k ?records))"
    by (rule conjunct2 [THEN conjunct2, THEN conjunct1])
  with groupMarkets_cricket
  have "map_of (matches ?st) ''E1''
        = map_option (\<lambda>r. matchOf samplePlatform ''cricket'' r (marketsOf samplePlatform ''E1'' ?records))
            (firstRecord samplePlatform ''E1'' ?records)"
    by blast
  with markets cricket_first_of_E1
  have "map_of (matches ?st) ''E1''
        = Some (matchOf samplePlatform ''cricket'' (?records ! 0) [transformedRecord ''Match Odds''])"
    by simp
  with groupMarkets_cricket
  have built: "\<exists>st. groupMarkets samplePlatform ''cricket'' (field cricketPayload ''result'') = Returns st
          \<and> map_of (matches st) ''E1''
            = Some (matchOf samplePlatform ''cricket'' (?records ! 0) [transformedRecord ''Match Odds''])"
    by blast
  have shape: "truthy cricketPayload \<and> field cricketPayload ''result'' = JArr ?records
        \<and> (\<forall>r \<in> set ?records. plainRecord samplePlatform r)"
    using cricket_plain by (simp add: cricketPayload_def)
  from inst
  have "truthy cricketPayload \<and> field cricketPayload ''result'' = JArr ?records
        \<and> (\<forall>r \<in> set ?records. plainRecord samplePlatform r) \<longrightarrow>
        (\<exists>st. groupMarkets samplePlatform ''cricket'' (field cricketPayload ''result'') = Returns st)
        \<and> (\<exists>out. transformSportData samplePlatform cricketPayload ''cricket'' = Returns out
                  \<and> field out ''success'' = JBool True)"
    by (rule conjunct2 [THEN conjunct2, THEN conjunct2, THEN conjunct2, THEN conjunct2, THEN conjunct2])
  with shape
  have "(\<exists>st. groupMarkets samplePlatform ''cricket'' (field cricketPayload ''result'') = Returns st)
        \<and> (\<exists>out. transformSportData samplePlatform cricketPayload ''cricket'' = Returns out
                  \<and> field out ''success'' = JBool True)"
    by (rule rev_mp)
  then have succeeds: "\<exists>out. transformSportData samplePlatform cricketPayload ''cricket'' = Returns out
                  \<and> field out ''success'' = JBool True"
    by (rule conjunct2)
  let ?c = "JObj [(''id'', JStr ''C1''), (''name'', JStr ''alpha Cup''),
                  (''matches'', JArr [matchObject ''E3'' (JStr ''C1'') (JStr ''alpha Cup'')
                                        [transformedRecord ''Match Odds'']])]"
  let ?m3 = "matchObject ''E3'' (JStr ''C1'') (JStr ''alpha Cup'') [transformedRecord ''Match Odds'']"
  have ret: "transformSportData samplePlatform cricketPayload ''cricket'' = Returns ?out"
    by (simp add: transformSportData_cricket resultOf_def)
  from inst
  have "transformSportData samplePlatform cricketPayload ''cricket'' = Returns ?out \<longrightarrow>
        (\<forall>c \<in> set (elems (field ?out ''competitions'')).
           \<forall>m \<in> set (elems (field c ''matches'')).
             \<forall>tm \<in> set (elems (field m ''markets'')).
               tm \<noteq> JNull
               \<and> (\<exists>r \<in> set ?records.
                     truthy (field r ''runners'') \<and> transformMarket r = Returns tm))"
    by (rule conjunct2 [THEN conjunct2, THEN conjunct2, THEN conjunct2, THEN conjunct2, THEN conjunct1])
  with ret have every: "\<forall>c \<in> set (elems (field ?out ''competitions'')).
           \<forall>m \<in> set (elems (field c ''matches'')).
             \<forall>tm \<in> set (elems (field m ''markets'')).
               tm \<noteq> JNull
               \<and> (\<exists>r \<in> set ?records.
                     truthy (field r ''runners'') \<and> transformMarket r = Returns tm)"
    by (rule rev_mp)
  have c: "?c \<in> set (elems (field ?out ''competitions''))"
    by (simp add: transformSportData_cricket_result)
  have m: "?m3 \<in> set (elems (field ?c ''matches''))"
    by simp
  have tm: "transformedRecord ''Match Odds'' \<in> set (elems (field ?m3 ''markets''))"
    by (simp add: matchObject_def)
  from every [rule_format, OF c m tm] null step member built succeeds markets show ?thesis by blast
qed

end
